theory Spec2Isabelle
  imports Complex_Main "HOL-Library.Word" "HOL-Library.Log_Nat"
begin

section \<open>Converting a recorded RealSense log into videos\<close>

text \<open>
  The script \<^verbatim>\<open>ros2-realsense-db3-to-video.py\<close> reads a rosbag2 recording, turns the
  messages of a colour topic and of a depth topic into frames, and pipes the frames into
  an external \<^verbatim>\<open>ffmpeg\<close> process. The functions of the script are embedded below as HOL
  functions. Exceptions are values of type \<open>error\<close>; printing, launching a process and
  writing to its input stream are events appended to a trace.
\<close>

subsection \<open>Configuration\<close>

definition OUTPUT_DIR :: string where
  "OUTPUT_DIR = ''output''"

definition ENABLE_COMPRESSION :: bool where
  "ENABLE_COMPRESSION = False"

definition BITRATE :: string where
  "BITRATE = ''24000k''"

definition COLOR_TOPIC :: string where
  "COLOR_TOPIC = ''/camera/color/image_raw''"

definition DEPTH_TOPIC :: string where
  "DEPTH_TOPIC = ''/camera/depth/image_rect_raw''"

definition IMU_TOPIC :: string where
  "IMU_TOPIC = ''/imu_raw/Imu''"

subsection \<open>Exceptions\<close>

text \<open>
  The script raises nothing itself; every exception comes from a library call. The
  constructors name the call that raises:
  \<^item> \<open>ValueError_frombuffer\<close>: \<^verbatim>\<open>np.frombuffer\<close> on a buffer whose size is not a multiple
    of the element size;
  \<^item> \<open>ValueError_reshape\<close>: \<^verbatim>\<open>ndarray.reshape\<close> to a shape whose product is not the
    number of elements;
  \<^item> \<open>ValueError_unpack\<close>: a tuple assignment with the wrong number of values;
  \<^item> \<open>AttributeError\<close>: a field the deserialised message does not have;
  \<^item> \<open>DeserializeError\<close>: \<^verbatim>\<open>reader.deserialize\<close> rejecting the raw bytes;
  \<^item> \<open>cv2_error\<close>: an OpenCV assertion (an empty image given to \<^verbatim>\<open>cv2.cvtColor\<close>);
  \<^item> \<open>FileExistsError\<close>: \<^verbatim>\<open>Path.mkdir(exist_ok=True)\<close> on a path that is a file;
  \<^item> \<open>FileNotFoundError\<close>: \<^verbatim>\<open>subprocess.Popen\<close> when the program cannot be started;
  \<^item> \<open>BrokenPipeError\<close>: a write to, or the closing flush of, the input stream of a
    process that no longer reads;
  \<^item> \<open>UnicodeDecodeError\<close>: \<^verbatim>\<open>bytes.decode()\<close> on diagnostics that are not UTF-8.
\<close>

datatype error =
    ValueError_frombuffer
  | ValueError_reshape
  | ValueError_unpack
  | AttributeError
  | DeserializeError
  | cv2_error
  | FileExistsError
  | FileNotFoundError
  | BrokenPipeError
  | UnicodeDecodeError

text \<open>
  The two \<^verbatim>\<open>ValueError\<close>s of the buffer reinterpretation are what the specification calls
  a malformed frame.
\<close>

fun MalformedFrameError :: "error \<Rightarrow> bool" where
  "MalformedFrameError ValueError_frombuffer = True"
| "MalformedFrameError ValueError_reshape = True"
| "MalformedFrameError _ = False"

definition bind_err :: "error + 'a \<Rightarrow> ('a \<Rightarrow> error + 'b) \<Rightarrow> error + 'b" where
  "bind_err x f = (case x of Inl e \<Rightarrow> Inl e | Inr v \<Rightarrow> f v)"

subsection \<open>Arrays\<close>

type_synonym uint8 = "8 word"
type_synonym uint16 = "16 word"

text \<open>
  A numpy array is a shape and its elements in row-major (C) order. Every array the
  script builds is contiguous, so \<^verbatim>\<open>tobytes()\<close> of a \<^verbatim>\<open>uint8\<close> array is its element list.
\<close>

record 'a ndarray =
  shape :: "nat list"
  elems :: "'a list"

definition frombuffer_uint8 :: "uint8 list \<Rightarrow> error + uint8 ndarray" where
  "frombuffer_uint8 buf = Inr \<lparr>shape = [length buf], elems = buf\<rparr>"

text \<open>
  \<^verbatim>\<open>np.frombuffer(buf, dtype=np.uint16)\<close> reads two bytes per sample in the machine's byte
  order; the model is little-endian, as the x86 and ARM hosts of ROS 2 are.
\<close>

fun uint16_of_bytes :: "uint8 list \<Rightarrow> uint16 list" where
  "uint16_of_bytes (lo # hi # rest) =
     (word_of_nat (unat lo + 256 * unat hi)) # uint16_of_bytes rest"
| "uint16_of_bytes _ = []"

definition frombuffer_uint16 :: "uint8 list \<Rightarrow> error + uint16 ndarray" where
  "frombuffer_uint16 buf =
     (if length buf mod 2 \<noteq> 0 then Inl ValueError_frombuffer
      else Inr \<lparr>shape = [length buf div 2], elems = uint16_of_bytes buf\<rparr>)"

definition reshape :: "'a ndarray \<Rightarrow> nat list \<Rightarrow> error + 'a ndarray" where
  "reshape a shp =
     (if prod_list shp = length (elems a) then Inr \<lparr>shape = shp, elems = elems a\<rparr>
      else Inl ValueError_reshape)"

definition tobytes :: "uint8 ndarray \<Rightarrow> uint8 list" where
  "tobytes a = elems a"

text \<open>The element at \<open>(row, col, channel)\<close> of a three-dimensional array.\<close>

definition at3 :: "'a ndarray \<Rightarrow> nat \<Rightarrow> nat \<Rightarrow> nat \<Rightarrow> 'a" where
  "at3 a r c ch = elems a ! ((r * (shape a ! 1) + c) * (shape a ! 2) + ch)"

subsection \<open>OpenCV: colour conversion\<close>

text \<open>
  \<^verbatim>\<open>cv2.cvtColor(frame, cv2.COLOR_RGB2BGR)\<close> exchanges the first and the third byte of
  every pixel and returns a new array of the same shape. It asserts that its input is
  not empty. The script only calls it on arrays of shape \<open>(h, w, 3)\<close>; any other shape
  is outside the model and is mapped to \<open>cv2_error\<close>.
\<close>

fun swap_rb :: "'a list \<Rightarrow> 'a list" where
  "swap_rb (r # g # b # rest) = b # g # r # swap_rb rest"
| "swap_rb _ = []"

definition cvtColor_RGB2BGR :: "uint8 ndarray \<Rightarrow> error + uint8 ndarray" where
  "cvtColor_RGB2BGR a =
     (if elems a = [] then Inl cv2_error
      else (case shape a of
              [h, w, c] \<Rightarrow>
                if c = 3 then Inr \<lparr>shape = [h, w, 3], elems = swap_rb (elems a)\<rparr>
                else Inl cv2_error
            | _ \<Rightarrow> Inl cv2_error))"

subsection \<open>The record source\<close>

text \<open>
  A deserialised message. \<open>Image\<close> stands for \<^verbatim>\<open>sensor_msgs/msg/Image\<close>: the script reads
  \<^verbatim>\<open>header.frame_id\<close>, \<^verbatim>\<open>height\<close>, \<^verbatim>\<open>width\<close> and \<^verbatim>\<open>data\<close> of it and nothing else.
  \<open>Imu\<close> has a header and no image fields; \<open>Other\<close> is a message with neither.
\<close>

datatype msg =
    Image string nat nat "uint8 list"
  | Imu string
  | Other

fun msg_data :: "msg \<Rightarrow> error + uint8 list" where
  "msg_data (Image fid h w d) = Inr d"
| "msg_data _ = Inl AttributeError"

fun msg_height :: "msg \<Rightarrow> error + nat" where
  "msg_height (Image fid h w d) = Inr h"
| "msg_height _ = Inl AttributeError"

fun msg_width :: "msg \<Rightarrow> error + nat" where
  "msg_width (Image fid h w d) = Inr w"
| "msg_width _ = Inl AttributeError"

fun msg_header_frame_id :: "msg \<Rightarrow> error + string" where
  "msg_header_frame_id (Image fid h w d) = Inr fid"
| "msg_header_frame_id (Imu fid) = Inr fid"
| "msg_header_frame_id Other = Inl AttributeError"

record connection =
  cid :: nat
  topic :: string
  msgtype :: string

text \<open>
  An open \<^verbatim>\<open>AnyReader\<close>: the connections of the recording, its stored messages
  \<open>(connection, timestamp, rawdata)\<close> in the order the reader yields them, and the
  deserialiser of the type store.
\<close>

record reader =
  connections :: "connection list"
  stored :: "(connection \<times> nat \<times> uint8 list) list"
  deserialize :: "uint8 list \<Rightarrow> string \<Rightarrow> error + msg"

text \<open>
  \<^verbatim>\<open>reader.messages(connections=conns)\<close>. The rosbags library documents the argument as
  ``connections to filter for; an empty iterable disables filtering on connections'':
  with an empty list every stored message is yielded.
\<close>

definition messages ::
  "reader \<Rightarrow> connection list \<Rightarrow> (connection \<times> nat \<times> uint8 list) list" where
  "messages rd conns =
     (if conns = [] then stored rd
      else filter (\<lambda>(c, t, raw). c \<in> set conns) (stored rd))"

subsection \<open>\<^verbatim>\<open>extract_color_frames\<close>\<close>

type_synonym frame = "uint8 ndarray"

text \<open>The body of the loop up to the frame that is appended (lines 33 to 36).\<close>

definition color_frame :: "reader \<Rightarrow> connection \<times> nat \<times> uint8 list \<Rightarrow> error + frame" where
  "color_frame rd x =
     (case x of (connection, _, rawdata) \<Rightarrow>
        bind_err (deserialize rd rawdata (msgtype connection)) (\<lambda>msg.
        bind_err (msg_data msg) (\<lambda>d.
        bind_err (frombuffer_uint8 d) (\<lambda>a.
        bind_err (msg_height msg) (\<lambda>h.
        bind_err (msg_width msg) (\<lambda>w.
        bind_err (reshape a [h, w, 3]) (\<lambda>frame.
        cvtColor_RGB2BGR frame)))))))"

text \<open>
  The loop, with its three variables \<open>color_frames\<close>, \<open>frame_width\<close> and
  \<open>frame_height\<close> as the accumulator. The resolution is taken from \<^verbatim>\<open>frame.shape[:2]\<close>
  while \<open>frame_width\<close> is still \<open>None\<close>.
\<close>

fun color_loop ::
  "reader \<Rightarrow> (connection \<times> nat \<times> uint8 list) list \<Rightarrow>
   frame list \<times> nat option \<times> nat option \<Rightarrow>
   error + (frame list \<times> nat option \<times> nat option)" where
  "color_loop rd [] st = Inr st"
| "color_loop rd (x # xs) (color_frames, frame_width, frame_height) =
     (case color_frame rd x of
        Inl e \<Rightarrow> Inl e
      | Inr frame \<Rightarrow>
          (if frame_width = None then
             (case take 2 (shape frame) of
                [fh, fw] \<Rightarrow> color_loop rd xs (color_frames @ [frame], Some fw, Some fh)
              | _ \<Rightarrow> Inl ValueError_unpack)
           else color_loop rd xs (color_frames @ [frame], frame_width, frame_height)))"

definition color_connections :: "reader \<Rightarrow> connection list" where
  "color_connections rd = filter (\<lambda>x. topic x = COLOR_TOPIC) (connections rd)"

text \<open>Returns \<open>(color_frames, fps, frame_width, frame_height)\<close>.\<close>

definition extract_color_frames ::
  "reader \<Rightarrow> error + (frame list \<times> nat \<times> nat option \<times> nat option)" where
  "extract_color_frames rd =
     (case color_loop rd (messages rd (color_connections rd)) ([], None, None) of
        Inl e \<Rightarrow> Inl e
      | Inr (color_frames, frame_width, frame_height) \<Rightarrow>
          Inr (color_frames, 30, frame_width, frame_height))"

subsection \<open>Floating point\<close>

text \<open>
  OpenCV computes the normalisation in IEEE 754 arithmetic: every operation gives the
  exact result rounded to the nearest number of the format, ties to the even significand.
  \<open>round_to p\<close> is that rounding for a significand of \<open>p\<close> bits: 24 for \<^verbatim>\<open>float\<close>, 53 for
  \<^verbatim>\<open>double\<close>. The exponent range is not modelled; the values of the normalisation lie
  between \<open>2^-17\<close> and \<open>2^25\<close>, far from underflow and overflow.
\<close>

text \<open>\<open>rne\<close>: the nearest integer, ties to even.\<close>

definition rne :: "rat \<Rightarrow> int" where
  "rne q =
     (let f = \<lfloor>q\<rfloor>; d = q - of_int f
      in if d < 1 / 2 then f
         else if 1 / 2 < d then f + 1
         else if even f then f else f + 1)"

text \<open>\<open>ilog2 x\<close> is the exponent \<open>e\<close> with \<open>2^e \<le> x < 2^(e + 1)\<close>, for positive \<open>x\<close>.\<close>

definition ilog2 :: "rat \<Rightarrow> int" where
  "ilog2 x =
     (case quotient_of x of
        (n, d) \<Rightarrow> let e = bitlen n - bitlen d in if 2 powi e \<le> x then e else e - 1)"

definition round_to :: "nat \<Rightarrow> rat \<Rightarrow> rat" where
  "round_to p x =
     (if x = 0 then 0
      else let ulp = 2 powi (ilog2 \<bar>x\<bar> - int p + 1) in of_int (rne (x / ulp)) * ulp)"

definition float32 :: "rat \<Rightarrow> rat" where
  "float32 x = round_to 24 x"

definition float64 :: "rat \<Rightarrow> rat" where
  "float64 x = round_to 53 x"

subsection \<open>OpenCV: range normalisation and colour map\<close>

text \<open>
  \<^verbatim>\<open>cv2.normalize(src, None, 0, 255, cv2.NORM_MINMAX, dtype=cv2.CV_8U)\<close> as OpenCV
  computes it. In \<^verbatim>\<open>double\<close>: the minimum \<open>smin\<close> and maximum \<open>smax\<close> of the array (both 0
  for an empty one), \<open>scale = (255 - 0) * (1 / (smax - smin))\<close> when \<open>smax - smin\<close> exceeds
  \<open>DBL_EPSILON\<close> and \<open>(255 - 0) * 0\<close> otherwise, and \<open>shift = 0 - smin * scale\<close>. Then
  \<^verbatim>\<open>convertTo\<close> turns both into \<^verbatim>\<open>float\<close> values \<open>a\<close> and \<open>b\<close> and computes, for every sample
  \<open>s\<close>, \<open>s * a + b\<close> in \<^verbatim>\<open>float\<close>, rounds it to the nearest integer with ties to even and
  saturates to \<open>0..255\<close>. Builds of OpenCV differ in whether \<open>s * a + b\<close> is one fused
  multiply-add or a multiplication followed by an addition; the flag \<open>fma\<close> says which.
\<close>

definition DBL_EPSILON :: rat where
  "DBL_EPSILON = 1 / 2 ^ 52"

definition cvRound :: "rat \<Rightarrow> int" where
  "cvRound q = rne q"

definition saturate_cast_uchar :: "int \<Rightarrow> uint8" where
  "saturate_cast_uchar i = word_of_int (max 0 (min 255 i))"

definition sample :: "uint16 \<Rightarrow> rat" where
  "sample s = of_nat (unat s)"

fun minMaxIdx :: "uint16 list \<Rightarrow> rat \<times> rat" where
  "minMaxIdx [] = (0, 0)"
| "minMaxIdx (s # ss) = (fold min (map sample ss) (sample s), fold max (map sample ss) (sample s))"

text \<open>The conversion of one sample (\<^verbatim>\<open>cvt_32f\<close>).\<close>

definition cvt_32f :: "bool \<Rightarrow> rat \<Rightarrow> rat \<Rightarrow> uint16 \<Rightarrow> uint8" where
  "cvt_32f fma a b s =
     saturate_cast_uchar
       (cvRound (float32 ((if fma then sample s * a else float32 (sample s * a)) + b)))"

definition normalize_minmax_8u :: "bool \<Rightarrow> uint16 ndarray \<Rightarrow> uint8 ndarray" where
  "normalize_minmax_8u fma src =
     (case minMaxIdx (elems src) of (smin, smax) \<Rightarrow>
        let scale = float64 ((255 - 0) *
                      (if DBL_EPSILON < smax - smin then float64 (1 / (smax - smin)) else 0));
            shift = float64 (0 - float64 (smin * scale));
            a = float32 scale;
            b = float32 shift
        in \<lparr>shape = shape src, elems = map (cvt_32f fma a b) (elems src)\<rparr>)"

text \<open>
  \<^verbatim>\<open>cv2.applyColorMap(img, cv2.COLORMAP_TURBO)\<close> looks every byte up in a table of 256
  BGR triples. The table is data of OpenCV and is a parameter here. The call converts
  its input with \<^verbatim>\<open>cvtColor\<close> first, which asserts that it is not empty.
\<close>

type_synonym colormap = "uint8 \<Rightarrow> uint8 \<times> uint8 \<times> uint8"

definition applyColorMap :: "colormap \<Rightarrow> uint8 ndarray \<Rightarrow> error + uint8 ndarray" where
  "applyColorMap lut a =
     (if elems a = [] then Inl cv2_error
      else (case shape a of
              [h, w] \<Rightarrow>
                Inr \<lparr>shape = [h, w, 3],
                     elems = concat (map (\<lambda>v. case lut v of (b, g, r) \<Rightarrow> [b, g, r]) (elems a))\<rparr>
            | _ \<Rightarrow> Inl cv2_error))"

subsection \<open>\<^verbatim>\<open>extract_depth_frames\<close>\<close>

text \<open>The loop body up to \<open>depth_normalized\<close> (lines 51 to 57).\<close>

definition depth_normalized ::
  "bool \<Rightarrow> reader \<Rightarrow> connection \<times> nat \<times> uint8 list \<Rightarrow> error + uint8 ndarray" where
  "depth_normalized fma rd x =
     (case x of (connection, _, rawdata) \<Rightarrow>
        bind_err (deserialize rd rawdata (msgtype connection)) (\<lambda>msg.
        bind_err (msg_data msg) (\<lambda>d.
        bind_err (frombuffer_uint16 d) (\<lambda>a.
        bind_err (msg_height msg) (\<lambda>h.
        bind_err (msg_width msg) (\<lambda>w.
        bind_err (reshape a [h, w]) (\<lambda>depth_frame.
        Inr (normalize_minmax_8u fma depth_frame))))))))"

definition depth_colored ::
  "bool \<Rightarrow> colormap \<Rightarrow> reader \<Rightarrow> connection \<times> nat \<times> uint8 list \<Rightarrow> error + frame" where
  "depth_colored fma turbo rd x = bind_err (depth_normalized fma rd x) (applyColorMap turbo)"

fun depth_loop ::
  "bool \<Rightarrow> colormap \<Rightarrow> reader \<Rightarrow> (connection \<times> nat \<times> uint8 list) list \<Rightarrow> frame list \<Rightarrow>
   error + frame list" where
  "depth_loop fma turbo rd [] depth_frames = Inr depth_frames"
| "depth_loop fma turbo rd (x # xs) depth_frames =
     (case depth_colored fma turbo rd x of
        Inl e \<Rightarrow> Inl e
      | Inr f \<Rightarrow> depth_loop fma turbo rd xs (depth_frames @ [f]))"

definition depth_connections :: "reader \<Rightarrow> connection list" where
  "depth_connections rd = filter (\<lambda>x. topic x = DEPTH_TOPIC) (connections rd)"

definition extract_depth_frames :: "bool \<Rightarrow> colormap \<Rightarrow> reader \<Rightarrow> error + frame list" where
  "extract_depth_frames fma turbo rd =
     depth_loop fma turbo rd (messages rd (depth_connections rd)) []"

subsection \<open>Effects\<close>

text \<open>
  What the script does to the world, in order: lines printed, the directory made, the
  process launched with its argument list, each completed write to the process's input
  stream, the close of that stream, the read of the diagnostics and the wait for the exit.
  The files of the world are paths with their contents; storing a file at a path that
  has one replaces the content.
\<close>

datatype event =
    Print string
  | Mkdir string
  | Popen "string list"
  | StdinWrite "uint8 list"
  | StdinClose
  | StderrRead
  | Wait

record world =
  trace :: "event list"
  files :: "(string \<times> uint8 list) list"
  dirs :: "string list"

definition emit :: "event \<Rightarrow> world \<Rightarrow> world" where
  "emit ev w = w\<lparr>trace := trace w @ [ev]\<rparr>"

definition file_exists :: "string \<Rightarrow> world \<Rightarrow> bool" where
  "file_exists p w = (p \<in> fst ` set (files w))"

fun store_file :: "string \<Rightarrow> uint8 list \<Rightarrow> (string \<times> uint8 list) list \<Rightarrow> (string \<times> uint8 list) list" where
  "store_file p c [] = [(p, c)]"
| "store_file p c ((q, d) # fs) = (if q = p then (p, c) # fs else (q, d) # store_file p c fs)"

text \<open>
  The external encoder is a parameter. Given its argument list, whether a file already
  exists at its output path, and the bytes the script offers on its input stream, it
  either cannot be started (\<open>None\<close>) or runs as a process that
  \<^item> stops reading at stream operation \<open>k\<close> when \<open>pipe_breaks\<close> is \<open>Some k\<close>: the writes
    are the operations \<open>0\<close> to \<open>n - 1\<close> and the close is operation \<open>n\<close>; the operation at
    which the pipe is broken raises \<^verbatim>\<open>BrokenPipeError\<close>;
  \<^item> leaves diagnostics on its error stream, \<open>None\<close> when they are not valid UTF-8;
  \<^item> ends with an exit code;
  \<^item> stores \<open>encoded\<close> at its output path, or nothing when \<open>encoded\<close> is \<open>None\<close>.
  A process that never ends, or that blocks on a full error stream, is outside the model.
\<close>

record process =
  pipe_breaks :: "nat option"
  stderr :: "string option"
  returncode :: int
  encoded :: "uint8 list option"

type_synonym ffmpeg = "string list \<Rightarrow> bool \<Rightarrow> uint8 list \<Rightarrow> process option"

text \<open>The command lines launched, and the bytes written to input streams, in a trace.\<close>

fun popen_cmds :: "event list \<Rightarrow> string list list" where
  "popen_cmds [] = []"
| "popen_cmds (Popen cmd # evs) = cmd # popen_cmds evs"
| "popen_cmds (_ # evs) = popen_cmds evs"

fun stdin_bytes :: "event list \<Rightarrow> uint8 list" where
  "stdin_bytes [] = []"
| "stdin_bytes (StdinWrite bs # evs) = bs @ stdin_bytes evs"
| "stdin_bytes (_ # evs) = stdin_bytes evs"


subsection \<open>\<^verbatim>\<open>extract_imu_data\<close>\<close>

definition imu_connections :: "reader \<Rightarrow> connection list" where
  "imu_connections rd = filter (\<lambda>x. topic x = IMU_TOPIC) (connections rd)"

fun imu_loop ::
  "reader \<Rightarrow> (connection \<times> nat \<times> uint8 list) list \<Rightarrow> world \<Rightarrow> error option \<times> world" where
  "imu_loop rd [] w = (None, w)"
| "imu_loop rd ((connection, timestamp, rawdata) # xs) w =
     (case bind_err (deserialize rd rawdata (msgtype connection)) msg_header_frame_id of
        Inl e \<Rightarrow> (Some e, w)
      | Inr fid \<Rightarrow> imu_loop rd xs (emit (Print fid) w))"

definition extract_imu_data :: "reader \<Rightarrow> world \<Rightarrow> error option \<times> world" where
  "extract_imu_data rd w = imu_loop rd (messages rd (imu_connections rd)) w"

subsection \<open>\<^verbatim>\<open>create_video\<close>\<close>

text \<open>Python's \<^verbatim>\<open>str\<close> of a non-negative integer.\<close>

fun str_nat :: "nat \<Rightarrow> string" where
  "str_nat n =
     (if n < 10 then [''0123456789'' ! n]
      else str_nat (n div 10) @ [''0123456789'' ! (n mod 10)])"

declare str_nat.simps [simp del]

text \<open>The argument list built in lines 77 to 96.\<close>

definition ffmpeg_cmd :: "string \<Rightarrow> nat \<Rightarrow> nat \<Rightarrow> nat \<Rightarrow> bool \<Rightarrow> string list" where
  "ffmpeg_cmd output_path fps width height enable_compression =
     (let codec = (if enable_compression then ''libx264'' else ''mpeg4'');
          crf = (if enable_compression then ''23'' else ''0'')
      in [''ffmpeg'',
          ''-y'',
          ''-f'', ''rawvideo'',
          ''-pixel_format'', ''bgr24'',
          ''-video_size'', str_nat width @ ''x'' @ str_nat height,
          ''-framerate'', str_nat fps,
          ''-i'', ''pipe:'',
          ''-c:v'', codec,
          ''-crf'', crf,
          ''-preset'', ''medium'']
         @ (if enable_compression then [''-b:v'', BITRATE] else [])
         @ [output_path])"

text \<open>
  The loop of lines 100 and 101: frame \<open>k\<close> is written unless the pipe is broken at
  operation \<open>k\<close>, where the write raises and the loop and the function end.
\<close>

fun write_frames :: "process \<Rightarrow> frame list \<Rightarrow> nat \<Rightarrow> world \<Rightarrow> error option \<times> world" where
  "write_frames process [] k w = (None, w)"
| "write_frames process (frame # frames) k w =
     (if pipe_breaks process = Some k then (Some BrokenPipeError, w)
      else write_frames process frames (Suc k) (emit (StdinWrite (tobytes frame)) w))"

text \<open>
  \<^verbatim>\<open>create_video\<close>. The result is the exception raised, if any, and the world. The file
  the process stores is put into the world when the process is launched. A close whose
  flush finds the pipe broken closes the stream and raises.
\<close>

definition create_video ::
  "ffmpeg \<Rightarrow> frame list \<Rightarrow> string \<Rightarrow> nat \<Rightarrow> nat \<Rightarrow> nat \<Rightarrow> bool \<Rightarrow> world \<Rightarrow>
   error option \<times> world" where
  "create_video ff frames output_path fps width height enable_compression w =
     (if frames = [] then (None, emit (Print (''No frames to write for '' @ output_path)) w)
      else
        let cmd = ffmpeg_cmd output_path fps width height enable_compression;
            w1 = emit (Popen cmd) w
        in case ff cmd (file_exists output_path w) (concat (map tobytes frames)) of
             None \<Rightarrow> (Some FileNotFoundError, w1)
           | Some process \<Rightarrow>
               let w2 = (case encoded process of
                           None \<Rightarrow> w1
                         | Some c \<Rightarrow> w1\<lparr>files := store_file output_path c (files w1)\<rparr>)
               in case write_frames process frames 0 w2 of
                    (Some e, w3) \<Rightarrow> (Some e, w3)
                  | (None, w3) \<Rightarrow>
                      let w4 = emit StdinClose w3
                      in if pipe_breaks process = Some (length frames)
                         then (Some BrokenPipeError, w4)
                         else
                           let w5 = emit StderrRead w4
                           in case stderr process of
                                None \<Rightarrow> (Some UnicodeDecodeError, w5)
                              | Some diagnostics \<Rightarrow>
                                  let w6 = emit Wait w5
                                  in if returncode process \<noteq> 0
                                     then (None, emit (Print (''Error creating video: '' @ diagnostics)) w6)
                                     else (None, emit (Print (''Video saved to '' @ output_path)) w6))"

subsection \<open>\<^verbatim>\<open>main\<close>\<close>

text \<open>
  The driver. The recording is the already opened reader \<open>rd\<close>; \<open>fma\<close> and \<open>turbo\<close>
  describe the OpenCV build and \<open>ff\<close> the encoder program. An exception of a library
  call ends the run: the result is the exception, if any, and the world as it was left.
\<close>

definition mkdir_exist_ok :: "string \<Rightarrow> world \<Rightarrow> error + world" where
  "mkdir_exist_ok p w =
     (if file_exists p w then Inl FileExistsError
      else Inr ((emit (Mkdir p) w)\<lparr>dirs := List.insert p (dirs w)\<rparr>))"

definition main ::
  "bool \<Rightarrow> colormap \<Rightarrow> ffmpeg \<Rightarrow> reader \<Rightarrow> world \<Rightarrow> error option \<times> world" where
  "main fma turbo ff rd w0 =
     (case mkdir_exist_ok OUTPUT_DIR w0 of
        Inl e \<Rightarrow> (Some e, w0)
      | Inr w1 \<Rightarrow>
     (case extract_imu_data rd (emit (Print ''Extracting IMU data...'') w1) of
        (Some e, w2) \<Rightarrow> (Some e, w2)
      | (None, w2) \<Rightarrow>
     (let w3 = emit (Print ''Extracting color frames...'') w2 in
      case extract_color_frames rd of
        Inl e \<Rightarrow> (Some e, w3)
      | Inr (color_frames, fps, width, height) \<Rightarrow>
     (let w4 = emit (Print ''Extracting depth frames...'') w3 in
      case extract_depth_frames fma turbo rd of
        Inl e \<Rightarrow> (Some e, w4)
      | Inr depth_frames \<Rightarrow>
     (case (width, height) of
        (Some wd, Some ht) \<Rightarrow>
          (case (if color_frames \<noteq> []
                 then create_video ff color_frames (OUTPUT_DIR @ ''/color_video.mp4'')
                        fps wd ht ENABLE_COMPRESSION w4
                 else (None, w4)) of
             (Some e, w5) \<Rightarrow> (Some e, w5)
           | (None, w5) \<Rightarrow>
               (if depth_frames \<noteq> []
                then create_video ff depth_frames (OUTPUT_DIR @ ''/depth_video.mp4'')
                       fps wd ht ENABLE_COMPRESSION w5
                else (None, w5)))
      | _ \<Rightarrow> (None, emit (Print ''Error: Could not determine frame size.'') w4))))))"

subsection \<open>Vocabulary of the properties\<close>

text \<open>The deserialised messages the colour loop and the depth loop iterate over.\<close>

definition color_msgs :: "reader \<Rightarrow> (error + msg) list" where
  "color_msgs rd =
     map (\<lambda>(c, t, raw). deserialize rd raw (msgtype c)) (messages rd (color_connections rd))"

definition depth_msgs :: "reader \<Rightarrow> (error + msg) list" where
  "depth_msgs rd =
     map (\<lambda>(c, t, raw). deserialize rd raw (msgtype c)) (messages rd (depth_connections rd))"

text \<open>
  A valid colour message is an image with at least one pixel whose buffer holds three
  bytes per pixel.
\<close>

definition valid_color_msg :: "error + msg \<Rightarrow> bool" where
  "valid_color_msg m =
     (case m of
        Inr (Image fid h w d) \<Rightarrow> 0 < h \<and> 0 < w \<and> length d = h * w * 3
      | _ \<Rightarrow> False)"

definition all_equal :: "'a list \<Rightarrow> bool" where
  "all_equal xs = (\<forall>x \<in> set xs. \<forall>y \<in> set xs. x = y)"

text \<open>The height and width a message declares.\<close>

definition msg_size :: "error + msg \<Rightarrow> (nat \<times> nat) option" where
  "msg_size m = (case m of Inr (Image fid h w d) \<Rightarrow> Some (h, w) | _ \<Rightarrow> None)"

text \<open>The stored messages of a topic.\<close>

definition messages_on_topic :: "string \<Rightarrow> reader \<Rightarrow> (connection \<times> nat \<times> uint8 list) list" where
  "messages_on_topic name rd = filter (\<lambda>(c, t, raw). topic c = name) (stored rd)"


text \<open>
  An encoder honours the overwrite flag when, given \<open>-y\<close> among its arguments, it does
  the same whether or not a file exists at its output path: it neither asks nor refuses.
\<close>

definition honours_overwrite_flag :: "ffmpeg \<Rightarrow> bool" where
  "honours_overwrite_flag ff =
     (\<forall>cmd input. ''-y'' \<in> set cmd \<longrightarrow> ff cmd True input = ff cmd False input)"

definition remove_file :: "string \<Rightarrow> world \<Rightarrow> world" where
  "remove_file p w = w\<lparr>files := filter (\<lambda>(q, d). q \<noteq> p) (files w)\<rparr>"

subsection \<open>Example recordings\<close>

text \<open>
  Small recordings on which the properties are exercised. Their deserialiser reads the
  first two bytes of a raw message as height and width and the rest as the pixel buffer.
\<close>

fun example_deserialize :: "uint8 list \<Rightarrow> string \<Rightarrow> error + msg" where
  "example_deserialize (h # w # d) ty = Inr (Image ''camera'' (unat h) (unat w) d)"
| "example_deserialize _ ty = Inl DeserializeError"

definition color_connection :: connection where
  "color_connection = \<lparr>cid = 0, topic = COLOR_TOPIC, msgtype = ''sensor_msgs/msg/Image''\<rparr>"

definition depth_connection :: connection where
  "depth_connection = \<lparr>cid = 1, topic = DEPTH_TOPIC, msgtype = ''sensor_msgs/msg/Image''\<rparr>"

definition other_connection :: connection where
  "other_connection =
     \<lparr>cid = 2, topic = ''/camera/camera/color/image_raw'', msgtype = ''sensor_msgs/msg/Image''\<rparr>"

text \<open>One colour image of one row and two columns.\<close>

definition recording_one_color :: reader where
  "recording_one_color =
     \<lparr>connections = [color_connection, depth_connection],
      stored = [(color_connection, 0, [1, 2, 10, 20, 30, 40, 50, 60])],
      deserialize = example_deserialize\<rparr>"

text \<open>One depth image of one row and three columns with the samples 10, 20 and 30.\<close>

definition depth_raw :: "uint8 list" where
  "depth_raw = [1, 3, 10, 0, 20, 0, 30, 0]"

definition recording_one_depth :: reader where
  "recording_one_depth =
     \<lparr>connections = [color_connection, depth_connection],
      stored = [(depth_connection, 0, depth_raw)],
      deserialize = example_deserialize\<rparr>"

text \<open>A stand-in for the colour table.\<close>

definition example_colormap :: colormap where
  "example_colormap v = (v, 0, 255 - v)"

text \<open>
  The world before the run, and three encoders. The first behaves as \<^verbatim>\<open>ffmpeg\<close> documents:
  it refuses to touch an existing output file unless \<open>-y\<close> is among its arguments, and
  otherwise reads its whole input and stores it as its output. The second rejects its
  arguments after reading its input. The third exits at once without reading.
\<close>

definition initial_world :: world where
  "initial_world = \<lparr>trace = [], files = [], dirs = []\<rparr>"

definition example_ffmpeg :: ffmpeg where
  "example_ffmpeg cmd exists input =
     (if exists \<and> ''-y'' \<notin> set cmd
      then Some \<lparr>pipe_breaks = Some 0, stderr = Some ''File exists. Exiting.'',
                 returncode = 1, encoded = None\<rparr>
      else Some \<lparr>pipe_breaks = None, stderr = Some ''frame= 1'',
                 returncode = 0, encoded = Some input\<rparr>)"



text \<open>A world in which an earlier run has left a video at the output path.\<close>

definition world_with_video :: world where
  "world_with_video = \<lparr>trace = [], files = [(''o.mp4'', [9, 9, 9])], dirs = []\<rparr>"

text \<open>A frame of one row and two columns, as the depth extractor builds it.\<close>

definition frame_1x2 :: frame where
  "frame_1x2 = \<lparr>shape = [1, 2, 3], elems = [1, 2, 3, 4, 5, 6]\<rparr>"

text \<open>Two colour images of different sizes: one pixel, then one row of two pixels.\<close>

definition recording_two_sizes :: reader where
  "recording_two_sizes =
     \<lparr>connections = [color_connection, depth_connection],
      stored = [(color_connection, 0, [1, 1, 1, 2, 3]),
                (color_connection, 1, [1, 2, 1, 2, 3, 4, 5, 6])],
      deserialize = example_deserialize\<rparr>"

text \<open>
  A recording without the colour topic: the camera published its colour images under
  another name, and the depth topic is registered with no message.
\<close>

definition recording_renamed_color :: reader where
  "recording_renamed_color =
     \<lparr>connections = [other_connection, depth_connection],
      stored = [(other_connection, 0, [1, 1, 10, 20, 30])],
      deserialize = example_deserialize\<rparr>"

text \<open>
  A recording whose second colour image declares two pixels and holds four bytes, and
  whose second depth image declares one sample and holds one byte.
\<close>

definition recording_malformed :: reader where
  "recording_malformed =
     \<lparr>connections = [color_connection, depth_connection],
      stored = [(color_connection, 0, [1, 1, 1, 2, 3]),
                (color_connection, 1, [1, 2, 1, 2, 3, 4]),
                (depth_connection, 2, [1, 2, 7, 0, 9, 0]),
                (depth_connection, 3, [1, 1, 7])],
      deserialize = example_deserialize\<rparr>"

section \<open>Properties\<close>

text \<open>The definitions that evaluate the example recordings.\<close>

lemmas example_defs = color_connection_def depth_connection_def other_connection_def
  COLOR_TOPIC_def DEPTH_TOPIC_def IMU_TOPIC_def messages_def color_connections_def
  depth_connections_def imu_connections_def

subsection \<open>The colour extractor\<close>

lemma swap_rb_length: "length (swap_rb xs) = 3 * (length xs div 3)"
  by (induction xs rule: swap_rb.induct) auto

lemma swap_rb_nth:
  "i < length xs div 3 \<Longrightarrow>
   swap_rb xs ! (3 * i) = xs ! (3 * i + 2) \<and>
   swap_rb xs ! (3 * i + 1) = xs ! (3 * i + 1) \<and>
   swap_rb xs ! (3 * i + 2) = xs ! (3 * i)"
proof (induction xs arbitrary: i rule: swap_rb.induct)
  case (1 r g b rest)
  show ?case
  proof (cases i)
    case 0
    then show ?thesis by simp
  next
    case (Suc j)
    with 1 have "j < length rest div 3" by simp
    from 1(1)[OF this] Suc show ?thesis by (simp add: numeral_3_eq_3)
  qed
qed simp_all

lemma color_frame_Image:
  assumes "deserialize rd raw (msgtype c) = Inr (Image fid h w d)"
  shows "color_frame rd (c, t, raw) =
           (if length d \<noteq> h * w * 3 then Inl ValueError_reshape
            else if d = [] then Inl cv2_error
            else Inr \<lparr>shape = [h, w, 3], elems = swap_rb d\<rparr>)"
  using assms
  by (simp add: color_frame_def bind_err_def frombuffer_uint8_def reshape_def
      cvtColor_RGB2BGR_def)

lemma color_frame_Inr:
  assumes "color_frame rd (c, t, raw) = Inr f"
  shows "\<exists>fid h w d. deserialize rd raw (msgtype c) = Inr (Image fid h w d) \<and>
           length d = h * w * 3 \<and> d \<noteq> [] \<and> f = \<lparr>shape = [h, w, 3], elems = swap_rb d\<rparr>"
proof (cases "deserialize rd raw (msgtype c)")
  case (Inl e)
  with assms show ?thesis by (simp add: color_frame_def bind_err_def)
next
  case (Inr m)
  show ?thesis
  proof (cases m)
    case (Image fid h w d)
    with Inr have "deserialize rd raw (msgtype c) = Inr (Image fid h w d)" by simp
    from color_frame_Image[OF this, of t] assms this show ?thesis
      by (auto split: if_splits)
  next
    case (Imu x)
    with Inr assms show ?thesis by (simp add: color_frame_def bind_err_def)
  next
    case Other
    with Inr assms show ?thesis by (simp add: color_frame_def bind_err_def)
  qed
qed

lemma color_loop_Inr:
  "color_loop rd xs (fs, fw, fh) = Inr (fs', fw', fh') \<Longrightarrow>
   \<exists>gs. fs' = fs @ gs \<and> list_all2 (\<lambda>x g. color_frame rd x = Inr g) xs gs \<and>
        (fw' = (if fw = None \<and> gs \<noteq> [] then Some (shape (hd gs) ! 1) else fw)) \<and>
        (fh' = (if fw = None \<and> gs \<noteq> [] then Some (shape (hd gs) ! 0) else fh))"
proof (induction xs arbitrary: fs fw fh)
  case Nil
  then show ?case by simp
next
  case (Cons x xs)
  from Cons.prems obtain g where g: "color_frame rd x = Inr g"
    by (auto split: sum.splits)
  obtain c t raw where x: "x = (c, t, raw)" by (cases x) auto
  from color_frame_Inr[OF g[unfolded x]] obtain h w where sh: "shape g = [h, w, 3]"
    by auto
  show ?case
  proof (cases fw)
    case None
    with Cons.prems g sh have "color_loop rd xs (fs @ [g], Some w, Some h) = Inr (fs', fw', fh')"
      by simp
    from Cons.IH[OF this] obtain gs where
      "fs' = (fs @ [g]) @ gs" "list_all2 (\<lambda>x g. color_frame rd x = Inr g) xs gs"
      "fw' = Some w" "fh' = Some h" by auto
    with g sh None show ?thesis
      by (intro exI[of _ "g # gs"]) simp
  next
    case (Some a)
    with Cons.prems g have "color_loop rd xs (fs @ [g], fw, fh) = Inr (fs', fw', fh')"
      by simp
    from Cons.IH[OF this] Some obtain gs where
      "fs' = (fs @ [g]) @ gs" "list_all2 (\<lambda>x g. color_frame rd x = Inr g) xs gs"
      "fw' = fw" "fh' = fh" by auto
    with g Some show ?thesis
      by (intro exI[of _ "g # gs"]) simp
  qed
qed

lemma color_loop_total:
  "\<forall>x \<in> set xs. \<exists>g. color_frame rd x = Inr g \<Longrightarrow>
   \<exists>r. color_loop rd xs (fs, fw, fh) = Inr r"
proof (induction xs arbitrary: fs fw fh)
  case Nil
  then show ?case by simp
next
  case (Cons x xs)
  then obtain g where g: "color_frame rd x = Inr g" by auto
  obtain c t raw where x: "x = (c, t, raw)" by (cases x) auto
  from color_frame_Inr[OF g[unfolded x]] obtain h w where sh: "shape g = [h, w, 3]"
    by auto
  from Cons.prems have rest: "\<forall>x \<in> set xs. \<exists>g. color_frame rd x = Inr g" by simp
  show ?case
    using Cons.IH[OF rest] g sh by (cases fw) simp_all
qed

text \<open>
  C1. Whenever the colour extractor returns, it has appended one frame per message, in
  order, and the frame of a message of height \<open>h\<close> and width \<open>w\<close> has shape
  \<open>(h, w, 3)\<close> and holds, at every row and column, the message's bytes with channels 0
  and 2 exchanged and channel 1 kept. When every message is valid the extractor does
  return, with the frame rate 30.
\<close>

theorem extract_color_frames_swaps_channels:
  "(\<forall>fs fps fw fh. extract_color_frames rd = Inr (fs, fps, fw, fh) \<longrightarrow>
      length fs = length (color_msgs rd) \<and>
      (\<forall>i < length fs. \<exists>fid h w d.
         color_msgs rd ! i = Inr (Image fid h w d) \<and>
         shape (fs ! i) = [h, w, 3] \<and>
         length (elems (fs ! i)) = h * w * 3 \<and>
         (\<forall>r < h. \<forall>c < w.
            at3 (fs ! i) r c 0 = d ! ((r * w + c) * 3 + 2) \<and>
            at3 (fs ! i) r c 1 = d ! ((r * w + c) * 3 + 1) \<and>
            at3 (fs ! i) r c 2 = d ! ((r * w + c) * 3 + 0)))) \<and>
   ((\<forall>m \<in> set (color_msgs rd). valid_color_msg m) \<longrightarrow>
      (\<exists>fs fw fh. extract_color_frames rd = Inr (fs, 30, fw, fh)))"
proof (intro conjI allI impI)
  fix fs fps fw fh
  assume ex: "extract_color_frames rd = Inr (fs, fps, fw, fh)"
  let ?xs = "messages rd (color_connections rd)"
  from ex have "color_loop rd ?xs ([], None, None) = Inr (fs, fw, fh)"
    by (auto simp: extract_color_frames_def split: sum.splits)
  from color_loop_Inr[OF this]
  have all2: "list_all2 (\<lambda>x g. color_frame rd x = Inr g) ?xs fs" by simp
  then have len: "length ?xs = length fs" by (rule list_all2_lengthD)
  then show "length fs = length (color_msgs rd)" by (simp add: color_msgs_def)
  fix i assume i: "i < length fs"
  obtain c t raw where x: "?xs ! i = (c, t, raw)" by (cases "?xs ! i") auto
  from all2 i have "color_frame rd (?xs ! i) = Inr (fs ! i)"
    by (simp add: list_all2_conv_all_nth)
  from color_frame_Inr[OF this[unfolded x]] obtain fid h w d where
    de: "deserialize rd raw (msgtype c) = Inr (Image fid h w d)" and
    ld: "length d = h * w * 3" and f: "fs ! i = \<lparr>shape = [h, w, 3], elems = swap_rb d\<rparr>"
    by auto
  have m: "color_msgs rd ! i = Inr (Image fid h w d)"
    using i len x de by (simp add: color_msgs_def)
  have px: "at3 (fs ! i) r k 0 = d ! ((r * w + k) * 3 + 2) \<and>
            at3 (fs ! i) r k 1 = d ! ((r * w + k) * 3 + 1) \<and>
            at3 (fs ! i) r k 2 = d ! ((r * w + k) * 3 + 0)" if "r < h" "k < w" for r k
  proof -
    from that have "r * w + k < (r + 1) * w" by simp
    also from that have "\<dots> \<le> h * w" by (intro mult_le_mono1) simp
    finally have "r * w + k < length d div 3" using ld by simp
    from swap_rb_nth[OF this] show ?thesis
      by (simp add: at3_def f mult.commute)
  qed
  show "\<exists>fid h w d.
         color_msgs rd ! i = Inr (Image fid h w d) \<and>
         shape (fs ! i) = [h, w, 3] \<and>
         length (elems (fs ! i)) = h * w * 3 \<and>
         (\<forall>r < h. \<forall>c < w.
            at3 (fs ! i) r c 0 = d ! ((r * w + c) * 3 + 2) \<and>
            at3 (fs ! i) r c 1 = d ! ((r * w + c) * 3 + 1) \<and>
            at3 (fs ! i) r c 2 = d ! ((r * w + c) * 3 + 0))"
    using m f ld px by (intro exI[of _ fid] exI[of _ h] exI[of _ w] exI[of _ d])
      (simp add: swap_rb_length)
next
  assume valid: "\<forall>m \<in> set (color_msgs rd). valid_color_msg m"
  let ?xs = "messages rd (color_connections rd)"
  have "\<exists>g. color_frame rd x = Inr g" if "x \<in> set ?xs" for x
  proof -
    obtain c t raw where x: "x = (c, t, raw)" by (cases x) auto
    from that x have "deserialize rd raw (msgtype c) \<in> set (color_msgs rd)"
      by (force simp: color_msgs_def)
    with valid have "valid_color_msg (deserialize rd raw (msgtype c))" by blast
    then obtain fid h w d where
      de: "deserialize rd raw (msgtype c) = Inr (Image fid h w d)" and
      v: "0 < h" "0 < w" "length d = h * w * 3"
      by (auto simp: valid_color_msg_def split: sum.splits msg.splits)
    from v have "d \<noteq> []" by auto
    with color_frame_Image[OF de, of t] v x show ?thesis by simp
  qed
  then have "\<forall>x \<in> set ?xs. \<exists>g. color_frame rd x = Inr g" by blast
  from color_loop_total[OF this, of "[]" None None]
  show "\<exists>fs fw fh. extract_color_frames rd = Inr (fs, 30, fw, fh)"
    by (auto simp: extract_color_frames_def)
qed

theorem extract_color_frames_swaps_channels_witness:
  "list_all valid_color_msg (color_msgs recording_one_color) \<and>
   (\<exists>fs fw fh. extract_color_frames recording_one_color = Inr (fs, 30, fw, fh) \<and>
      length fs = 1 \<and> shape (fs ! 0) = [1, 2, 3] \<and>
      at3 (fs ! 0) 0 1 0 = 60 \<and> at3 (fs ! 0) 0 1 1 = 50 \<and> at3 (fs ! 0) 0 1 2 = 40)"
proof -
  let ?rd = recording_one_color
  have msgs: "color_msgs ?rd = [Inr (Image ''camera'' 1 2 [10, 20, 30, 40, 50, 60])]"
    by (simp add: color_msgs_def recording_one_color_def example_defs)
  have valid: "\<forall>m \<in> set (color_msgs ?rd). valid_color_msg m"
    by (simp add: msgs valid_color_msg_def)
  note claim = extract_color_frames_swaps_channels [of ?rd]
  from claim valid obtain fs fw fh where ex: "extract_color_frames ?rd = Inr (fs, 30, fw, fh)"
    by blast
  from claim ex have len: "length fs = 1" by (simp add: msgs)
  from claim ex len obtain fid h w d where
    m: "color_msgs ?rd ! 0 = Inr (Image fid h w d)" and
    sh: "shape (fs ! 0) = [h, w, 3]" and
    px: "\<forall>r < h. \<forall>c < w.
            at3 (fs ! 0) r c 0 = d ! ((r * w + c) * 3 + 2) \<and>
            at3 (fs ! 0) r c 1 = d ! ((r * w + c) * 3 + 1) \<and>
            at3 (fs ! 0) r c 2 = d ! ((r * w + c) * 3 + 0)"
    by (metis zero_less_one)
  from m have hw: "h = 1" "w = 2" "d = [10, 20, 30, 40, 50, 60]" by (simp_all add: msgs)
  from px hw have "at3 (fs ! 0) 0 1 0 = 60 \<and> at3 (fs ! 0) 0 1 1 = 50 \<and> at3 (fs ! 0) 0 1 2 = 40"
    by simp
  with ex len sh hw valid show ?thesis by (auto simp: list_all_iff)
qed

subsection \<open>Floating-point rounding\<close>

text \<open>
  Rounding to the nearest integer moves a number by at most one half; rounding to \<open>p\<close>
  bits changes a number by at most the fraction \<open>2^-p\<close> of it, and leaves a number of
  at most \<open>p\<close> significant bits as it is.
\<close>

lemma rne_bound: "\<bar>of_int (rne q) - q\<bar> \<le> 1 / 2"
proof -
  have "of_int \<lfloor>q\<rfloor> \<le> q" "q < of_int \<lfloor>q\<rfloor> + 1" by linarith+
  then show ?thesis by (auto simp: rne_def Let_def)
qed

lemma rne_of_int: "rne (of_int n) = n"
  by (simp add: rne_def)

lemma rne_floor: "\<lfloor>q\<rfloor> \<le> rne q" "rne q \<le> \<lfloor>q\<rfloor> + 1"
proof -
  define f where "f = \<lfloor>q\<rfloor>"
  have "rne q = (if q - of_int f < 1 / 2 then f
         else if 1 / 2 < q - of_int f then f + 1
         else if even f then f else f + 1)"
    by (simp only: rne_def Let_def f_def)
  then have "f \<le> rne q \<and> rne q \<le> f + 1" by (auto split: if_splits)
  then show "\<lfloor>q\<rfloor> \<le> rne q" "rne q \<le> \<lfloor>q\<rfloor> + 1" by (simp_all only: f_def)
qed

lemma rne_le_0:
  assumes "q \<le> 1 / 2"
  shows "rne q \<le> 0"
proof (cases "\<lfloor>q\<rfloor> = 0")
  case True
  then have "q - of_int \<lfloor>q\<rfloor> \<le> 1 / 2" using assms by simp
  with True show ?thesis by (simp add: rne_def Let_def)
next
  case False
  have "\<lfloor>q\<rfloor> \<le> 0" using assms by (simp add: floor_le_iff)
  with False have "\<lfloor>q\<rfloor> + 1 \<le> 0" by linarith
  with rne_floor(2)[of q] show ?thesis by linarith
qed

lemma rne_ge_255:
  assumes "509 / 2 < q"
  shows "255 \<le> rne q"
proof (cases "\<lfloor>q\<rfloor> = 254")
  case True
  with assms have "1 / 2 < q - of_int \<lfloor>q\<rfloor>" by simp
  with True show ?thesis by (simp add: rne_def Let_def)
next
  case False
  have "254 \<le> \<lfloor>q\<rfloor>" using assms by (simp add: le_floor_iff)
  with False have "255 \<le> \<lfloor>q\<rfloor>" by linarith
  with rne_floor(1)[of q] show ?thesis by linarith
qed

lemma saturate_low: "i \<le> 0 \<Longrightarrow> saturate_cast_uchar i = 0"
  by (simp add: saturate_cast_uchar_def max_def)

lemma saturate_high: "255 \<le> i \<Longrightarrow> saturate_cast_uchar i = 255"
  by (simp add: saturate_cast_uchar_def min_def)

lemma two_powi_nat: "0 \<le> k \<Longrightarrow> (2::rat) powi k = 2 ^ nat k"
  by (simp add: power_int_def)

lemma ilog2_bounds:
  assumes "0 < x"
  shows "2 powi (ilog2 x) \<le> x" and "x < 2 powi (ilog2 x + 1)"
proof -
  obtain n d where q: "quotient_of x = (n, d)" by (cases "quotient_of x") auto
  then have x: "x = of_int n / of_int d" and d: "0 < d"
    by (simp_all add: quotient_of_div quotient_of_denom_pos)
  from assms x d have n: "0 < n" by (simp add: zero_less_divide_iff)
  define bn bd where "bn = bitlen n" and "bd = bitlen d"
  from bitlen_bounds[OF n] have "2 ^ nat (bn - 1) \<le> n" "n < 2 ^ nat bn"
    by (simp_all add: bn_def)
  then have n1: "(2::rat) ^ nat (bn - 1) \<le> of_int n" and n2: "of_int n < (2::rat) ^ nat bn"
    by (metis of_int_le_iff of_int_numeral of_int_power, metis of_int_less_iff of_int_numeral of_int_power)
  from bitlen_bounds[OF d] have "2 ^ nat (bd - 1) \<le> d" "d < 2 ^ nat bd"
    by (simp_all add: bd_def)
  then have d1: "(2::rat) ^ nat (bd - 1) \<le> of_int d" and d2: "of_int d < (2::rat) ^ nat bd"
    by (metis of_int_le_iff of_int_numeral of_int_power, metis of_int_less_iff of_int_numeral of_int_power)
  have bn1: "1 \<le> bn" using n by (simp add: bn_def bitlen_alt_def)
  have bd1: "1 \<le> bd" using d by (simp add: bd_def bitlen_alt_def)
  have N1: "2 powi (bn - 1) \<le> (of_int n :: rat)" using n1 bn1 by (simp add: two_powi_nat)
  have N2: "(of_int n :: rat) < 2 powi bn" using n2 bn1 by (simp add: two_powi_nat)
  have D1: "2 powi (bd - 1) \<le> (of_int d :: rat)" using d1 bd1 by (simp add: two_powi_nat)
  have D2: "(of_int d :: rat) < 2 powi bd" using d2 bd1 by (simp add: two_powi_nat)
  have dpos: "0 < (of_int d :: rat)" using d by simp
  have lower: "2 powi (bn - bd - 1) \<le> x"
  proof -
    have "2 powi (bn - bd - 1) * of_int d \<le> (2::rat) powi (bn - bd - 1) * 2 powi bd"
      using D2 by (intro mult_left_mono) simp_all
    also have "\<dots> = 2 powi (bn - 1)"
      by (simp add: power_int_add[symmetric])
    also have "\<dots> \<le> of_int n" by (rule N1)
    finally show ?thesis using dpos by (simp add: x pos_le_divide_eq)
  qed
  have upper: "x < 2 powi (bn - bd + 1)"
  proof -
    have "of_int n < (2::rat) powi bn" by (rule N2)
    also have "\<dots> = 2 powi (bn - bd + 1) * 2 powi (bd - 1)"
      by (simp add: power_int_add[symmetric])
    also have "\<dots> \<le> 2 powi (bn - bd + 1) * of_int d"
      using D1 by (intro mult_left_mono) simp_all
    finally show ?thesis using dpos by (simp add: x pos_divide_less_eq)
  qed
  have il: "ilog2 x = (if 2 powi (bn - bd) \<le> x then bn - bd else bn - bd - 1)"
    by (simp add: ilog2_def q Let_def bn_def bd_def)
  show "2 powi (ilog2 x) \<le> x" using lower by (simp add: il)
  show "x < 2 powi (ilog2 x + 1)" using upper by (auto simp: il not_le)
qed


lemma two_powi_pos: "0 < (2::rat) powi k"
  by (simp add: zero_less_power_int)

lemma two_powi_add: "(2::rat) powi (a + b) = 2 powi a * 2 powi b"
  by (simp add: power_int_add)

lemma two_powi_of_nat: "(2::rat) powi (int n) = 2 ^ n"
  by simp

lemma round_to_rel: "\<bar>round_to p x - x\<bar> \<le> \<bar>x\<bar> / 2 ^ p"
proof (cases "x = 0")
  case True
  then show ?thesis by (simp add: round_to_def)
next
  case False
  define e where "e = ilog2 \<bar>x\<bar>"
  define u where "u = (2::rat) powi (e - int p + 1)"
  have upos: "0 < u" by (simp add: u_def two_powi_pos)
  have r: "round_to p x = of_int (rne (x / u)) * u"
    using False by (simp add: round_to_def Let_def e_def u_def)
  have "\<bar>round_to p x - x\<bar> = \<bar>of_int (rne (x / u)) - x / u\<bar> * u"
  proof -
    have "round_to p x - x = (of_int (rne (x / u)) - x / u) * u"
      using upos by (simp add: r algebra_simps)
    then show ?thesis using upos by (simp add: abs_mult)
  qed
  also have "\<dots> \<le> (1 / 2) * u"
    using rne_bound[of "x / u"] upos by (intro mult_right_mono) simp_all
  also have "\<dots> = 2 powi e / 2 ^ p"
  proof -
    have "e - int p + 1 = e + (- int p) + 1" by simp
    then have "u = 2 powi e * 2 powi (- int p) * 2 powi 1"
      by (simp only: u_def two_powi_add)
    also have "\<dots> = 2 powi e / 2 ^ p * 2"
      by (simp add: power_int_minus divide_inverse)
    finally show ?thesis by simp
  qed
  also have "\<dots> \<le> \<bar>x\<bar> / 2 ^ p"
  proof -
    from False have "0 < \<bar>x\<bar>" by simp
    from ilog2_bounds(1)[OF this] show ?thesis
      by (simp add: e_def divide_right_mono)
  qed
  finally show ?thesis .
qed

lemma round_to_exact:
  assumes x: "x = of_int m * 2 powi k" and m: "\<bar>m\<bar> < 2 ^ p"
  shows "round_to p x = x"
proof (cases "x = 0")
  case True
  then show ?thesis by (simp add: round_to_def)
next
  case False
  define e where "e = ilog2 \<bar>x\<bar>"
  define u where "u = (2::rat) powi (e - int p + 1)"
  have upos: "0 < u" by (simp add: u_def two_powi_pos)
  have r: "round_to p x = of_int (rne (x / u)) * u"
    using False by (simp add: round_to_def Let_def e_def u_def)
  from False have xpos: "0 < \<bar>x\<bar>" by simp
  have ax: "\<bar>x\<bar> = of_int \<bar>m\<bar> * 2 powi k"
    using two_powi_pos[of k] by (simp add: x abs_mult)
  have "2 powi e \<le> \<bar>x\<bar>" using ilog2_bounds(1)[OF xpos] by (simp add: e_def)
  also have "\<dots> < 2 ^ p * 2 powi k"
  proof -
    from m have "(of_int \<bar>m\<bar> :: rat) < 2 ^ p"
      by (metis of_int_less_iff of_int_numeral of_int_power)
    then show ?thesis
      unfolding ax using two_powi_pos[of k] by (intro mult_strict_right_mono)
  qed
  also have "\<dots> = 2 powi (int p + k)"
    by (simp only: two_powi_add two_powi_of_nat)
  finally have lt: "(2::rat) powi e < 2 powi (int p + k)" .
  have "e < int p + k"
  proof (rule ccontr)
    assume "\<not> e < int p + k"
    then have "int p + k \<le> e" by simp
    then have "(2::rat) powi (int p + k) \<le> 2 powi e"
      by (intro power_int_increasing) simp_all
    with lt show False by simp
  qed
  then have j: "0 \<le> k - (e - int p + 1)" by simp
  define j where "j = nat (k - (e - int p + 1))"
  have kj: "k = (e - int p + 1) + int j" using \<open>0 \<le> k - (e - int p + 1)\<close> by (simp add: j_def)
  have "2 powi k = u * 2 ^ j"
    by (simp only: kj u_def two_powi_add two_powi_of_nat)
  then have "x = of_int m * (u * 2 ^ j)"
    by (simp only: x)
  then have xu: "x / u = of_int (m * 2 ^ j)"
    using upos by simp
  then have "rne (x / u) = m * 2 ^ j" by (simp only: rne_of_int)
  then have "round_to p x = of_int (m * 2 ^ j) * u" by (simp only: r)
  also have "\<dots> = x" using xu upos by (simp only: xu[symmetric]) simp
  finally show ?thesis .
qed

text \<open>
  The error analysis of the normalisation for a range of at least 7. Scale and shift are
  off by a few rounding errors; with at most \<open>65528 * 255 / 7\<close> for the scaled minimum,
  the value computed for the minimum stays at most one half, and the value computed for
  the maximum stays above 254.5. \<open>q1\<close> and \<open>q2\<close> stand for the product of the sample
  with the scale, rounded or not.
\<close>

lemma round_to_nonneg_bounds:
  assumes "0 \<le> x"
  shows "x * (1 - 1 / 2 ^ p) \<le> round_to p x" and "round_to p x \<le> x * (1 + 1 / 2 ^ p)"
proof -
  from round_to_rel[of p x] assms have "\<bar>round_to p x - x\<bar> \<le> x / 2 ^ p" by simp
  then show "x * (1 - 1 / 2 ^ p) \<le> round_to p x" "round_to p x \<le> x * (1 + 1 / 2 ^ p)"
    by (simp_all add: algebra_simps abs_le_iff)
qed

lemma round_to_nonpos_bounds:
  assumes "x \<le> 0"
  shows "(- x) * (1 - 1 / 2 ^ p) \<le> - round_to p x" and "- round_to p x \<le> (- x) * (1 + 1 / 2 ^ p)"
proof -
  from round_to_rel[of p x] assms have "\<bar>round_to p x - x\<bar> \<le> (- x) / 2 ^ p" by simp
  then show "(- x) * (1 - 1 / 2 ^ p) \<le> - round_to p x"
    "- round_to p x \<le> (- x) * (1 + 1 / 2 ^ p)"
    by (simp_all add: algebra_simps abs_le_iff)
qed


lemma up_chain: "u \<le> v * c \<Longrightarrow> v \<le> w \<Longrightarrow> 0 \<le> c \<Longrightarrow> u \<le> w * (c::rat)"
  by (meson mult_right_mono order_trans)

lemma lo_chain: "v * c \<le> u \<Longrightarrow> w \<le> v \<Longrightarrow> 0 \<le> c \<Longrightarrow> w * (c::rat) \<le> u"
  by (meson mult_right_mono order_trans)

lemma extremes_general:
  fixes smin smax q1 q2 :: rat
  assumes s0: "0 \<le> smin" and gap: "smin + 7 \<le> smax" and top: "smax \<le> 65535"
  defines "scale \<equiv> float64 (255 * float64 (1 / (smax - smin)))"
  defines "a \<equiv> float32 scale"
  defines "b \<equiv> float32 (float64 (0 - float64 (smin * scale)))"
  assumes q1: "smin * a * (1 - 1 / 2 ^ 24) \<le> q1" "q1 \<le> smin * a * (1 + 1 / 2 ^ 24)"
    and q2: "smax * a * (1 - 1 / 2 ^ 24) \<le> q2" "q2 \<le> smax * a * (1 + 1 / 2 ^ 24)"
  shows "float32 (q1 + b) \<le> 1 / 2" and "509 / 2 < float32 (q2 + b)"
proof -
  define g where "g = smax - smin"
  define R where "R = 255 / g"
  define X where "X = smin * R"
  define l64 h64 l32 h32 :: rat where
    "l64 = 1 - 1 / 2 ^ 53" and "h64 = 1 + 1 / 2 ^ 53" and
    "l32 = 1 - 1 / 2 ^ 24" and "h32 = 1 + 1 / 2 ^ 24"
  have c0: "0 \<le> l64" "0 \<le> h64" "0 \<le> l32" "0 \<le> h32"
    by (simp_all add: l64_def h64_def l32_def h32_def)
  have g7: "7 \<le> g" using gap by (simp add: g_def)
  then have gpos: "0 < g" by simp
  have Rpos: "0 \<le> R" using gpos by (simp add: R_def)
  have Xpos: "0 \<le> X" using s0 Rpos by (simp add: X_def)
  have smax0: "0 \<le> smax" using s0 gap by simp
  have X': "smax * R = X + 255"
    using gpos by (simp add: X_def R_def g_def field_simps)
  \<comment> \<open>the reciprocal and the scale\<close>
  define t where "t = float64 (1 / g)"
  have t: "(1 / g) * l64 \<le> t" "t \<le> (1 / g) * h64"
    using round_to_nonneg_bounds[of "1 / g" 53] gpos
    by (simp_all add: t_def float64_def l64_def h64_def)
  have tpos: "0 \<le> t" using t(1) gpos c0 by (meson divide_nonneg_pos mult_nonneg_nonneg order_trans zero_le_one less_imp_le)
  have sc: "scale = float64 (255 * t)" by (simp add: scale_def t_def g_def)
  have sc1: "255 * t * l64 \<le> scale" and sc2: "scale \<le> 255 * t * h64"
    using round_to_nonneg_bounds[of "255 * t" 53] tpos
    by (simp_all add: sc float64_def l64_def h64_def)
  have scale_lo: "R * l64 * l64 \<le> scale"
  proof -
    have "R * l64 = 255 * ((1 / g) * l64)" by (simp add: R_def)
    also have "\<dots> \<le> 255 * t" using t(1) by simp
    finally have A: "R * l64 \<le> 255 * t" .
    show ?thesis by (rule lo_chain[OF sc1 A c0(1)])
  qed
  have scale_hi: "scale \<le> R * h64 * h64"
  proof -
    have "255 * t \<le> 255 * ((1 / g) * h64)" using t(2) by simp
    also have "\<dots> = R * h64" by (simp add: R_def)
    finally have A: "255 * t \<le> R * h64" .
    show ?thesis by (rule up_chain[OF sc2 A c0(2)])
  qed
  have scpos: "0 \<le> scale" using scale_lo Rpos c0 by (meson mult_nonneg_nonneg order_trans)
  \<comment> \<open>the two float values\<close>
  have a1: "scale * l32 \<le> a" and a2: "a \<le> scale * h32"
    using round_to_nonneg_bounds[of scale 24] scpos
    by (simp_all add: a_def float32_def l32_def h32_def)
  have a_lo: "R * l64 * l64 * l32 \<le> a" by (rule lo_chain[OF a1 scale_lo c0(3)])
  have a_hi: "a \<le> R * h64 * h64 * h32" by (rule up_chain[OF a2 scale_hi c0(4)])
  have apos: "0 \<le> a" using a1 scpos c0 by (meson mult_nonneg_nonneg order_trans)
  define P where "P = float64 (smin * scale)"
  have Pin: "0 \<le> smin * scale" using s0 scpos by simp
  have P1: "smin * scale * l64 \<le> P" and P2: "P \<le> smin * scale * h64"
    using round_to_nonneg_bounds[of "smin * scale" 53] Pin
    by (simp_all add: P_def float64_def l64_def h64_def)
  have P_lo: "X * l64 * l64 * l64 \<le> P"
  proof -
    have "X * l64 * l64 = smin * (R * l64 * l64)" by (simp add: X_def)
    also have "\<dots> \<le> smin * scale" using scale_lo s0 by (rule mult_left_mono)
    finally have A: "X * l64 * l64 \<le> smin * scale" .
    show ?thesis by (rule lo_chain[OF P1 A c0(1)])
  qed
  have P_hi: "P \<le> X * h64 * h64 * h64"
  proof -
    have "smin * scale \<le> smin * (R * h64 * h64)" using scale_hi s0 by (rule mult_left_mono)
    also have "\<dots> = X * h64 * h64" by (simp add: X_def)
    finally have A: "smin * scale \<le> X * h64 * h64" .
    show ?thesis by (rule up_chain[OF P2 A c0(2)])
  qed
  have Ppos: "0 \<le> P" using P1 Pin c0 by (meson mult_nonneg_nonneg order_trans)
  define S where "S = - float64 (0 - P)"
  have S1: "P * l64 \<le> S" and S2: "S \<le> P * h64"
    using round_to_nonpos_bounds[of "0 - P" 53] Ppos
    by (simp_all add: S_def float64_def l64_def h64_def)
  have Spos: "0 \<le> S" using S1 Ppos c0 by (meson mult_nonneg_nonneg order_trans)
  have S_lo: "X * l64 * l64 * l64 * l64 \<le> S" by (rule lo_chain[OF S1 P_lo c0(1)])
  have S_hi: "S \<le> X * h64 * h64 * h64 * h64" by (rule up_chain[OF S2 P_hi c0(2)])
  define B where "B = - b"
  have bS: "b = float32 (- S)" by (simp add: b_def S_def P_def)
  have B1: "S * l32 \<le> B" and B2: "B \<le> S * h32"
    using round_to_nonpos_bounds[of "- S" 24] Spos
    by (simp_all add: B_def bS float32_def l32_def h32_def)
  have B_lo: "X * l64 * l64 * l64 * l64 * l32 \<le> B" by (rule lo_chain[OF B1 S_lo c0(3)])
  have B_hi: "B \<le> X * h64 * h64 * h64 * h64 * h32" by (rule up_chain[OF B2 S_hi c0(4)])
  \<comment> \<open>the products\<close>
  have q1_hi: "q1 \<le> X * h64 * h64 * h32 * h32"
  proof -
    have "smin * a \<le> smin * (R * h64 * h64 * h32)" using a_hi s0 by (rule mult_left_mono)
    also have "\<dots> = X * h64 * h64 * h32" by (simp add: X_def)
    finally have A: "smin * a \<le> X * h64 * h64 * h32" .
    have q: "q1 \<le> smin * a * h32" using q1(2) by (simp add: h32_def)
    show ?thesis by (rule up_chain[OF q A c0(4)])
  qed
  have q2_lo: "(X + 255) * l64 * l64 * l32 * l32 \<le> q2"
  proof -
    have "(X + 255) * l64 * l64 * l32 = smax * (R * l64 * l64 * l32)"
      by (simp add: X'[symmetric])
    also have "\<dots> \<le> smax * a" using a_lo smax0 by (rule mult_left_mono)
    finally have A: "(X + 255) * l64 * l64 * l32 \<le> smax * a" .
    have q: "smax * a * l32 \<le> q2" using q2(1) by (simp add: l32_def)
    show ?thesis by (rule lo_chain[OF q A c0(3)])
  qed
  \<comment> \<open>the largest value of \<open>X\<close>\<close>
  have Xmax: "X \<le> 65528 * 255 / 7"
  proof -
    have "smin + g \<le> 65535" using top by (simp add: g_def)
    with g7 have "7 * smin \<le> 65528 * g" by linarith
    then have "smin / g \<le> 65528 / 7" using gpos by (simp add: field_simps)
    then have "255 * (smin / g) \<le> 255 * (65528 / 7)" by (rule mult_left_mono) simp
    then show ?thesis by (simp add: X_def R_def)
  qed
  define K1 where "K1 = h64 * h64 * h32 * h32 - l64 * l64 * l64 * l64 * l32"
  define K2 where "K2 = h64 * h64 * h64 * h64 * h32 - l64 * l64 * l32 * l32"
  have K1pos: "0 \<le> K1" and K2pos: "0 \<le> K2"
    by (simp_all add: K1_def K2_def l64_def h64_def l32_def h32_def)
  have y1: "q1 + b \<le> 65528 * 255 / 7 * K1"
  proof -
    have "q1 + b = q1 - B" by (simp add: B_def)
    also have "\<dots> \<le> X * h64 * h64 * h32 * h32 - X * l64 * l64 * l64 * l64 * l32"
      using q1_hi B_lo by linarith
    also have "\<dots> = X * K1" by (simp add: K1_def algebra_simps)
    also have "\<dots> \<le> 65528 * 255 / 7 * K1" using Xmax K1pos by (rule mult_right_mono)
    finally show ?thesis .
  qed
  have y2: "255 * (l64 * l64 * l32 * l32) - 65528 * 255 / 7 * K2 \<le> q2 + b"
  proof -
    have "X * K2 \<le> 65528 * 255 / 7 * K2" using Xmax K2pos by (rule mult_right_mono)
    then have "255 * (l64 * l64 * l32 * l32) - 65528 * 255 / 7 * K2
        \<le> 255 * (l64 * l64 * l32 * l32) - X * K2" by simp
    also have "\<dots> = (X + 255) * l64 * l64 * l32 * l32 - X * h64 * h64 * h64 * h64 * h32"
      by (simp add: K2_def algebra_simps)
    also have "\<dots> \<le> q2 - B" using q2_lo B_hi by linarith
    also have "\<dots> = q2 + b" by (simp add: B_def)
    finally show ?thesis .
  qed
  have n1: "65528 * 255 / 7 * K1 * h32 \<le> 1 / 2"
    by (simp add: K1_def l64_def h64_def l32_def h32_def)
  have n2: "509 / 2 < (255 * (l64 * l64 * l32 * l32) - 65528 * 255 / 7 * K2) * l32"
    by (simp add: K2_def l64_def h64_def l32_def h32_def)
  show "float32 (q1 + b) \<le> 1 / 2"
  proof (cases "0 \<le> q1 + b")
    case True
    from round_to_nonneg_bounds(2)[OF True, of 24]
    have "float32 (q1 + b) \<le> (q1 + b) * h32" by (simp add: float32_def h32_def)
    also have "\<dots> \<le> 65528 * 255 / 7 * K1 * h32" using y1 c0 by (intro mult_right_mono)
    also have "\<dots> \<le> 1 / 2" by (rule n1)
    finally show ?thesis .
  next
    case False
    then have neg: "q1 + b \<le> 0" by simp
    from round_to_nonpos_bounds(1)[OF neg, of 24]
    have "(- (q1 + b)) * l32 \<le> - float32 (q1 + b)" by (simp add: float32_def l32_def)
    moreover have "0 \<le> (- (q1 + b)) * l32" using neg c0 by (intro mult_nonneg_nonneg) simp_all
    ultimately show ?thesis by linarith
  qed
  show "509 / 2 < float32 (q2 + b)"
  proof -
    have pos: "0 \<le> 255 * (l64 * l64 * l32 * l32) - 65528 * 255 / 7 * K2"
      using n2 c0 by (simp add: K2_def l64_def h64_def l32_def h32_def)
    with y2 have ypos: "0 \<le> q2 + b" by linarith
    have "509 / 2 < (255 * (l64 * l64 * l32 * l32) - 65528 * 255 / 7 * K2) * l32" by (rule n2)
    also have "\<dots> \<le> (q2 + b) * l32" using y2 c0 by (intro mult_right_mono)
    also have "\<dots> \<le> float32 (q2 + b)"
      using round_to_nonneg_bounds(1)[OF ypos, of 24] by (simp add: float32_def l32_def)
    finally show ?thesis .
  qed
qed

text \<open>
  For a range of at most 6 the scale \<open>255 / range\<close> is a \<^verbatim>\<open>float\<close>, and so is its product
  with every sample: the computation is exact.
\<close>

lemma representable:
  fixes R :: rat
  assumes R: "R = of_int c * 2 powi k" and c: "0 \<le> c" "c \<le> 255" and n: "n \<le> 65535"
  shows "float32 (of_nat n * R) = of_nat n * R"
    and "float64 (of_nat n * R) = of_nat n * R"
    and "float64 (0 - of_nat n * R) = - (of_nat n * R)"
    and "float32 (- (of_nat n * R)) = - (of_nat n * R)"
proof -
  have "int n * c \<le> 65535 * 255" using c n by (intro mult_mono) simp_all
  then have m24: "\<bar>int n * c\<bar> < 2 ^ 24" using c by (simp add: abs_mult)
  then have m53: "\<bar>int n * c\<bar> < 2 ^ 53" by simp
  have x: "of_nat n * R = of_int (int n * c) * 2 powi k" by (simp add: R)
  have nx: "- (of_nat n * R) = of_int (- (int n * c)) * 2 powi k" by (simp add: R)
  have m24': "\<bar>- (int n * c)\<bar> < 2 ^ 24" and m53': "\<bar>- (int n * c)\<bar> < 2 ^ 53"
    using m24 m53 by simp_all
  show "float32 (of_nat n * R) = of_nat n * R"
    unfolding float32_def by (rule round_to_exact[OF x m24])
  show "float64 (of_nat n * R) = of_nat n * R"
    unfolding float64_def by (rule round_to_exact[OF x m53])
  show "float32 (- (of_nat n * R)) = - (of_nat n * R)"
    unfolding float32_def by (rule round_to_exact[OF nx m24'])
  have "float64 (- (of_nat n * R)) = - (of_nat n * R)"
    unfolding float64_def by (rule round_to_exact[OF nx m53'])
  then show "float64 (0 - of_nat n * R) = - (of_nat n * R)" by simp
qed

lemma extremes_exact:
  fixes R :: rat
  assumes sc: "float64 (255 * float64 (1 / of_nat g)) = R"
    and R: "R = of_int c * 2 powi k" and c: "0 \<le> c" "c \<le> 255"
    and gR: "of_nat g * R = 255"
    and hi: "hi = lo + g" "hi \<le> 65535"
  defines "scale \<equiv> float64 (255 * float64 (1 / (of_nat hi - of_nat lo)))"
  defines "a \<equiv> float32 scale"
  defines "b \<equiv> float32 (float64 (0 - float64 (of_nat lo * scale)))"
  assumes q1: "q1 = of_nat lo * a \<or> q1 = float32 (of_nat lo * a)"
    and q2: "q2 = of_nat hi * a \<or> q2 = float32 (of_nat hi * a)"
  shows "float32 (q1 + b) = 0" and "float32 (q2 + b) = 255"
proof -
  have lo: "lo \<le> 65535" using hi by simp
  have "(of_nat hi :: rat) - of_nat lo = of_nat g" using hi(1) by simp
  then have scale: "scale = R" by (simp add: scale_def sc)
  have "a = float32 (of_nat 1 * R)" by (simp add: a_def scale)
  also have "\<dots> = of_nat 1 * R" by (rule representable(1)[OF R c]) simp
  finally have a: "a = R" by simp
  have b: "b = - (of_nat lo * R)"
    by (simp only: b_def scale representable(2)[OF R c lo] representable(3)[OF R c lo]
        representable(4)[OF R c lo])
  have q1': "q1 = of_nat lo * R" using q1 by (auto simp: a representable(1)[OF R c lo])
  have q2': "q2 = of_nat hi * R" using q2 by (auto simp: a representable(1)[OF R c hi(2)])
  have "q1 + b = 0" by (simp add: q1' b)
  then show "float32 (q1 + b) = 0" by (simp add: float32_def round_to_def)
  have "q2 + b = of_nat g * R" by (simp add: q2' b hi(1) algebra_simps)
  then have "q2 + b = of_int 255 * 2 powi 0" by (simp add: gR)
  from round_to_exact[OF this, of 24] show "float32 (q2 + b) = 255"
    by (simp add: float32_def \<open>q2 + b = of_int 255 * 2 powi 0\<close>)
qed

lemma scale_small_ranges:
  "float64 (255 * float64 (1 / of_nat 1)) = of_int 255 * 2 powi 0"
  "float64 (255 * float64 (1 / of_nat 2)) = of_int 255 * 2 powi (- 1)"
  "float64 (255 * float64 (1 / of_nat 3)) = of_int 85 * 2 powi 0"
  "float64 (255 * float64 (1 / of_nat 4)) = of_int 255 * 2 powi (- 2)"
  "float64 (255 * float64 (1 / of_nat 5)) = of_int 51 * 2 powi 0"
  "float64 (255 * float64 (1 / of_nat 6)) = of_int 85 * 2 powi (- 1)"
  by code_simp+

text \<open>
  Both cases together: with scale and shift computed from a minimum \<open>lo\<close> and a larger
  maximum \<open>hi\<close>, the conversion sends \<open>lo\<close> to 0 and \<open>hi\<close> to 255, fused or not.
\<close>

lemma round_to_nonneg: "0 \<le> x \<Longrightarrow> 0 \<le> round_to p x"
proof -
  assume x: "0 \<le> x"
  have "(0::rat) \<le> 1 - 1 / 2 ^ p" by simp
  with x have "0 \<le> x * (1 - 1 / 2 ^ p)" by (rule mult_nonneg_nonneg)
  with round_to_nonneg_bounds(1)[OF x, of p] show ?thesis by linarith
qed

lemma cvt_32f_extremes:
  fixes lo hi :: uint16
  assumes "lo < hi"
  defines "scale \<equiv> float64 (255 * float64 (1 / (sample hi - sample lo)))"
  defines "a \<equiv> float32 scale"
  defines "b \<equiv> float32 (float64 (0 - float64 (sample lo * scale)))"
  shows "cvt_32f fma a b lo = 0" and "cvt_32f fma a b hi = 255"
proof -
  define l h where "l = unat lo" and "h = unat hi"
  have sl: "sample lo = of_nat l" and sh: "sample hi = of_nat h"
    by (simp_all only: sample_def l_def h_def)
  have lh: "l < h" using assms(1) by (simp add: l_def h_def word_less_nat_alt)
  have "unat hi < 2 ^ 16" using unsigned_less[of hi, where ?'a = nat] by simp
  then have hmax: "h \<le> 65535" by (simp add: h_def)
  define g where "g = h - l"
  have hg: "h = l + g" and g1: "1 \<le> g" using lh by (simp_all add: g_def)
  define q1 where "q1 = (if fma then sample lo * a else float32 (sample lo * a))"
  define q2 where "q2 = (if fma then sample hi * a else float32 (sample hi * a))"
  have v: "float32 (q1 + b) \<le> 1 / 2 \<and> 509 / 2 < float32 (q2 + b)"
  proof (cases "g \<le> 6")
    case True
    have q1': "q1 = of_nat l * a \<or> q1 = float32 (of_nat l * a)"
      by (simp add: q1_def sl)
    have q2': "q2 = of_nat h * a \<or> q2 = float32 (of_nat h * a)"
      by (simp add: q2_def sh)
    note ex = extremes_exact[where lo = l and hi = h and g = g and ?q1.0 = q1 and ?q2.0 = q2,
        OF _ _ _ _ _ hg hmax q1'[unfolded a_def scale_def sl sh] q2'[unfolded a_def scale_def sl sh],
        folded sl sh, folded scale_def, folded a_def, folded b_def]
    from True g1 consider "g = 1" | "g = 2" | "g = 3" | "g = 4" | "g = 5" | "g = 6"
      by linarith
    then have "float32 (q1 + b) = 0 \<and> float32 (q2 + b) = 255"
    proof cases
      case 1
      show ?thesis
        using ex[where R = "of_int 255 * 2 powi 0" and c = 255 and k = 0]
          scale_small_ranges(1) by (simp add: 1)
    next
      case 2
      show ?thesis
        using ex[where R = "of_int 255 * 2 powi (- 1)" and c = 255 and k = "- 1"]
          scale_small_ranges(2) by (simp add: 2)
    next
      case 3
      show ?thesis
        using ex[where R = "of_int 85 * 2 powi 0" and c = 85 and k = 0]
          scale_small_ranges(3) by (simp add: 3)
    next
      case 4
      show ?thesis
        using ex[where R = "of_int 255 * 2 powi (- 2)" and c = 255 and k = "- 2"]
          scale_small_ranges(4) by (simp add: 4)
    next
      case 5
      show ?thesis
        using ex[where R = "of_int 51 * 2 powi 0" and c = 51 and k = 0]
          scale_small_ranges(5) by (simp add: 5)
    next
      case 6
      show ?thesis
        using ex[where R = "of_int 85 * 2 powi (- 1)" and c = 85 and k = "- 1"]
          scale_small_ranges(6) by (simp add: 6)
    qed
    then show ?thesis by simp
  next
    case False
    then have "7 \<le> g" by simp
    then have gap: "sample lo + 7 \<le> sample hi"
      by (simp add: sl sh hg)
    have s0: "0 \<le> sample lo" by (simp add: sl)
    have top: "sample hi \<le> 65535" using hmax by (simp add: sh)
    have gpos: "0 < sample hi - sample lo" using gap by simp
    have "0 \<le> float64 (1 / (sample hi - sample lo))"
      unfolding float64_def using gpos by (intro round_to_nonneg) simp
    then have "0 \<le> scale"
      unfolding scale_def float64_def by (intro round_to_nonneg) simp
    then have apos: "0 \<le> a" unfolding a_def float32_def by (rule round_to_nonneg)
    have between: "x * (1 - 1 / 2 ^ 24) \<le> (if fma then x else float32 x) \<and>
                   (if fma then x else float32 x) \<le> x * (1 + 1 / 2 ^ 24)"
      if "0 \<le> x" for x :: rat
    proof (cases fma)
      case True
      have "x * (1 - 1 / 2 ^ 24) \<le> x * 1" "x * 1 \<le> x * (1 + 1 / 2 ^ 24)"
        using that by (intro mult_left_mono; simp)+
      with True show ?thesis by simp
    next
      case False
      with round_to_nonneg_bounds[OF that, of 24] show ?thesis by (simp add: float32_def)
    qed
    have x1: "0 \<le> sample lo * a" using s0 apos by simp
    have x2: "0 \<le> sample hi * a" using s0 gap apos by simp
    from extremes_general[OF s0 gap top, of q1 q2, folded scale_def, folded a_def, folded b_def]
      between[OF x1] between[OF x2]
    show ?thesis by (simp add: q1_def q2_def)
  qed
  have c1: "cvt_32f fma a b lo = saturate_cast_uchar (cvRound (float32 (q1 + b)))"
    and c2: "cvt_32f fma a b hi = saturate_cast_uchar (cvRound (float32 (q2 + b)))"
    by (simp_all add: cvt_32f_def q1_def q2_def)
  from v have "cvRound (float32 (q1 + b)) \<le> 0" "255 \<le> cvRound (float32 (q2 + b))"
    by (simp_all add: cvRound_def rne_le_0 rne_ge_255)
  then show "cvt_32f fma a b lo = 0" "cvt_32f fma a b hi = 255"
    by (simp_all add: c1 c2 saturate_low saturate_high)
qed

subsection \<open>The depth extractor\<close>

lemma mono_sample: "mono sample"
proof (rule monoI)
  fix x y :: uint16
  assume "x \<le> y"
  then have "unat x \<le> unat y" by (simp only: word_le_nat_alt)
  then have "(of_nat (unat x) :: rat) \<le> of_nat (unat y)" by (simp only: of_nat_le_iff)
  then show "sample x \<le> sample y" by (simp only: sample_def)
qed

lemma minMaxIdx_Min_Max:
  assumes "ss \<noteq> []"
  shows "minMaxIdx ss = (sample (Min (set ss)), sample (Max (set ss)))"
proof -
  from assms obtain s rest where ss: "ss = s # rest" by (cases ss) auto
  have "fold min (map sample rest) (sample s) = Min (set (map sample (s # rest)))"
    by (simp only: list.map Min.set_eq_fold)
  also have "\<dots> = Min (sample ` set ss)" by (simp add: ss)
  also have "\<dots> = sample (Min (set ss))"
    using assms by (intro mono_Min_commute[OF mono_sample, symmetric]) simp_all
  finally have mn: "fold min (map sample rest) (sample s) = sample (Min (set ss))" .
  have "fold max (map sample rest) (sample s) = Max (set (map sample (s # rest)))"
    by (simp only: list.map Max.set_eq_fold)
  also have "\<dots> = Max (sample ` set ss)" by (simp add: ss)
  also have "\<dots> = sample (Max (set ss))"
    using assms by (intro mono_Max_commute[OF mono_sample, symmetric]) simp_all
  finally have mx: "fold max (map sample rest) (sample s) = sample (Max (set ss))" .
  from mn mx show ?thesis by (simp add: ss)
qed

lemma sample_gap:
  assumes "a < b"
  shows "1 \<le> sample b - sample a"
proof -
  from assms have "unat a < unat b" by (simp add: word_less_nat_alt)
  then have "unat a + 1 \<le> unat b" by simp
  then have "(of_nat (unat a + 1) :: rat) \<le> of_nat (unat b)" by (simp only: of_nat_le_iff)
  then have "(of_nat (unat a) :: rat) + 1 \<le> of_nat (unat b)" by (simp only: of_nat_add of_nat_1)
  then show ?thesis by (simp only: sample_def le_diff_eq add.commute)
qed

lemma normalize_minmax_8u_extremes:
  assumes ne: "\<exists>i < length (elems src). \<exists>j < length (elems src). elems src ! i \<noteq> elems src ! j"
    and p: "p < length (elems src)"
  shows "(elems src ! p = Min (set (elems src)) \<longrightarrow>
            elems (normalize_minmax_8u fma src) ! p = 0) \<and>
         (elems src ! p = Max (set (elems src)) \<longrightarrow>
            elems (normalize_minmax_8u fma src) ! p = 255)"
proof -
  let ?ss = "elems src"
  let ?mn = "Min (set ?ss)" and ?mx = "Max (set ?ss)"
  from p have nonempty: "?ss \<noteq> []" by auto
  from ne obtain i j where ij: "i < length ?ss" "j < length ?ss" "?ss ! i \<noteq> ?ss ! j" by blast
  have "?mn \<le> ?ss ! i" "?mn \<le> ?ss ! j" "?ss ! i \<le> ?mx" "?ss ! j \<le> ?mx"
    using ij by simp_all
  with ij(3) have "?mn \<noteq> ?mx" by auto
  moreover have "?mn \<le> ?mx" using \<open>?mn \<le> ?ss ! i\<close> \<open>?ss ! i \<le> ?mx\<close> by (rule order_trans)
  ultimately have lt: "?mn < ?mx" by simp
  from sample_gap[OF this] have gap: "1 \<le> sample ?mx - sample ?mn" .
  have eps: "DBL_EPSILON < sample ?mx - sample ?mn"
  proof -
    have "DBL_EPSILON < 1" by (simp add: DBL_EPSILON_def)
    with gap show ?thesis by simp
  qed
  define scale where "scale = float64 (255 * float64 (1 / (sample ?mx - sample ?mn)))"
  define a where "a = float32 scale"
  define b where "b = float32 (float64 (0 - float64 (sample ?mn * scale)))"
  have el: "elems (normalize_minmax_8u fma src) ! p = cvt_32f fma a b (?ss ! p)"
    using p eps
    by (simp add: normalize_minmax_8u_def minMaxIdx_Min_Max[OF nonempty] Let_def
        scale_def a_def b_def)
  from cvt_32f_extremes[OF lt, of fma]
  have "cvt_32f fma a b ?mn = 0" "cvt_32f fma a b ?mx = 255"
    by (simp_all only: scale_def a_def b_def)
  with el show ?thesis by auto
qed

lemma uint16_of_bytes_length: "length (uint16_of_bytes d) = length d div 2"
  by (induction d rule: uint16_of_bytes.induct) simp_all

lemma normalize_minmax_8u_shape: "shape (normalize_minmax_8u fma a) = shape a"
  by (simp add: normalize_minmax_8u_def Let_def split: prod.splits)

lemma normalize_minmax_8u_length: "length (elems (normalize_minmax_8u fma a)) = length (elems a)"
  by (simp add: normalize_minmax_8u_def Let_def split: prod.splits)

lemma depth_normalized_Image:
  assumes "deserialize rd raw (msgtype c) = Inr (Image fid h w d)"
  shows "depth_normalized fma rd (c, t, raw) =
           (if length d mod 2 \<noteq> 0 then Inl ValueError_frombuffer
            else if length d div 2 \<noteq> h * w then Inl ValueError_reshape
            else Inr (normalize_minmax_8u fma \<lparr>shape = [h, w], elems = uint16_of_bytes d\<rparr>))"
  using assms
  by (simp add: depth_normalized_def bind_err_def frombuffer_uint16_def reshape_def
      uint16_of_bytes_length eq_commute[of "h * w"])

lemma depth_normalized_Inr:
  assumes "depth_normalized fma rd (c, t, raw) = Inr n"
  shows "\<exists>fid h w d. deserialize rd raw (msgtype c) = Inr (Image fid h w d) \<and>
           length d = h * w * 2 \<and>
           n = normalize_minmax_8u fma \<lparr>shape = [h, w], elems = uint16_of_bytes d\<rparr>"
proof (cases "deserialize rd raw (msgtype c)")
  case (Inl e)
  with assms show ?thesis by (simp add: depth_normalized_def bind_err_def)
next
  case (Inr m)
  show ?thesis
  proof (cases m)
    case (Image fid h w d)
    with Inr have de: "deserialize rd raw (msgtype c) = Inr (Image fid h w d)" by simp
    from depth_normalized_Image[OF de, of fma t] assms
    have "length d mod 2 = 0" "length d div 2 = h * w"
      "n = normalize_minmax_8u fma \<lparr>shape = [h, w], elems = uint16_of_bytes d\<rparr>"
      by (auto split: if_splits)
    moreover from this have "length d = h * w * 2" by presburger
    ultimately show ?thesis using de by blast
  next
    case (Imu x)
    with Inr assms show ?thesis by (simp add: depth_normalized_def bind_err_def)
  next
    case Other
    with Inr assms show ?thesis by (simp add: depth_normalized_def bind_err_def)
  qed
qed

lemma depth_colored_Inr:
  assumes "depth_colored fma turbo rd (c, t, raw) = Inr f"
  shows "\<exists>fid h w d n. deserialize rd raw (msgtype c) = Inr (Image fid h w d) \<and>
           length d = h * w * 2 \<and> d \<noteq> [] \<and>
           depth_normalized fma rd (c, t, raw) = Inr n \<and> applyColorMap turbo n = Inr f \<and>
           shape f = [h, w, 3] \<and> length (elems f) = h * w * 3"
proof -
  from assms obtain n where n: "depth_normalized fma rd (c, t, raw) = Inr n"
    and f: "applyColorMap turbo n = Inr f"
    by (auto simp: depth_colored_def bind_err_def split: sum.splits)
  from depth_normalized_Inr[OF n] obtain fid h w d where
    de: "deserialize rd raw (msgtype c) = Inr (Image fid h w d)" and
    ld: "length d = h * w * 2" and
    nn: "n = normalize_minmax_8u fma \<lparr>shape = [h, w], elems = uint16_of_bytes d\<rparr>"
    by blast
  have shn: "shape n = [h, w]" by (simp add: nn normalize_minmax_8u_shape)
  have len: "length (elems n) = h * w"
    by (simp add: nn normalize_minmax_8u_length uint16_of_bytes_length ld)
  from f shn have ne: "elems n \<noteq> []" and
    ff: "f = \<lparr>shape = [h, w, 3],
             elems = concat (map (\<lambda>v. case turbo v of (b, g, r) \<Rightarrow> [b, g, r]) (elems n))\<rparr>"
    by (auto simp: applyColorMap_def split: if_splits)
  have "length (concat (map (\<lambda>v. case turbo v of (b, g, r) \<Rightarrow> [b, g, r]) xs)) = length xs * 3"
    for xs :: "uint8 list"
    by (induction xs) (auto split: prod.splits)
  with ff len have lf: "length (elems f) = h * w * 3" by simp
  from ne len ld have "d \<noteq> []" by auto
  with de ld n f ff lf show ?thesis by auto
qed

lemma depth_loop_Inr:
  "depth_loop fma turbo rd xs acc = Inr fs \<Longrightarrow>
   \<exists>gs. fs = acc @ gs \<and> list_all2 (\<lambda>x g. depth_colored fma turbo rd x = Inr g) xs gs"
proof (induction xs arbitrary: acc)
  case Nil
  then show ?case by simp
next
  case (Cons x xs)
  from Cons.prems obtain g where g: "depth_colored fma turbo rd x = Inr g"
    and rest: "depth_loop fma turbo rd xs (acc @ [g]) = Inr fs"
    by (auto split: sum.splits)
  from Cons.IH[OF rest] obtain gs where
    "fs = (acc @ [g]) @ gs" "list_all2 (\<lambda>x g. depth_colored fma turbo rd x = Inr g) xs gs"
    by blast
  with g show ?case by (intro exI[of _ "g # gs"]) simp
qed

lemma depth_colored_Image:
  assumes "deserialize rd raw (msgtype c) = Inr (Image fid h w d)"
  shows "depth_colored fma turbo rd (c, t, raw) =
           (if length d mod 2 \<noteq> 0 then Inl ValueError_frombuffer
            else if length d div 2 \<noteq> h * w then Inl ValueError_reshape
            else applyColorMap turbo
                   (normalize_minmax_8u fma \<lparr>shape = [h, w], elems = uint16_of_bytes d\<rparr>))"
  by (simp add: depth_colored_def depth_normalized_Image[OF assms] bind_err_def)

text \<open>
  Two runs of the normalisation, with the multiply-add fused or not. The samples 0, 7
  and 14 show the single-precision arithmetic: the exact image of 7 is 127.5, and the
  product of 7 with the rounded scale lies below it.
\<close>

lemma normalize_minmax_8u_example:
  "normalize_minmax_8u fma \<lparr>shape = sh, elems = [10, 20, 30]\<rparr> =
     \<lparr>shape = sh, elems = [0, 128, 255]\<rparr>"
proof -
  have mm: "minMaxIdx [10, 20, 30 :: uint16] = (10, 30)" by code_simp
  have eps: "DBL_EPSILON < (30::rat) - 10" by (simp add: DBL_EPSILON_def)
  have sc: "float64 ((255 - 0) * float64 (1 / (30 - 10))) = 51 / 4" by code_simp
  have sf: "float64 (0 - float64 (10 * (51 / 4))) = - (255 / 2)" by code_simp
  have a: "float32 (51 / 4) = 51 / 4" by code_simp
  have b: "float32 (- (255 / 2)) = - (255 / 2)" by code_simp
  have c: "cvt_32f True (51 / 4) (- (255 / 2)) 10 = 0"
    "cvt_32f True (51 / 4) (- (255 / 2)) 20 = 128"
    "cvt_32f True (51 / 4) (- (255 / 2)) 30 = 255"
    "cvt_32f False (51 / 4) (- (255 / 2)) 10 = 0"
    "cvt_32f False (51 / 4) (- (255 / 2)) 20 = 128"
    "cvt_32f False (51 / 4) (- (255 / 2)) 30 = 255"
    by code_simp+
  show ?thesis
    by (cases fma)
      (simp_all only: normalize_minmax_8u_def ndarray.simps mm prod.case Let_def eps if_True
        sc sf a b list.map c)
qed

lemma normalize_minmax_8u_rounds_in_float32:
  "normalize_minmax_8u fma \<lparr>shape = sh, elems = [0, 7, 14]\<rparr> =
     \<lparr>shape = sh, elems = [0, 127, 255]\<rparr>"
proof -
  have mm: "minMaxIdx [0, 7, 14 :: uint16] = (0, 14)" by code_simp
  have eps: "DBL_EPSILON < (14::rat) - 0" by (simp add: DBL_EPSILON_def)
  have ab: "float32 (float64 ((255 - 0) * float64 (1 / (14 - 0)))) = 9549531 / 524288"
    "float32 (float64 (0 - float64 (0 * float64 ((255 - 0) * float64 (1 / (14 - 0)))))) = 0"
    by code_simp+
  have c: "cvt_32f True (9549531 / 524288) 0 0 = 0"
    "cvt_32f True (9549531 / 524288) 0 7 = 127"
    "cvt_32f True (9549531 / 524288) 0 14 = 255"
    "cvt_32f False (9549531 / 524288) 0 0 = 0"
    "cvt_32f False (9549531 / 524288) 0 7 = 127"
    "cvt_32f False (9549531 / 524288) 0 14 = 255"
    by code_simp+
  show ?thesis
    by (cases fma)
      (simp_all only: normalize_minmax_8u_def ndarray.simps mm prod.case Let_def eps if_True
        ab list.map c)
qed

lemma extract_depth_frames_example:
  "extract_depth_frames fma example_colormap recording_one_depth =
     Inr [\<lparr>shape = [1, 3, 3], elems = [0, 0, 255, 128, 0, 127, 255, 0, 0]\<rparr>]"
proof -
  let ?rd = recording_one_depth
  have ms: "messages ?rd (depth_connections ?rd) = [(depth_connection, 0, depth_raw)]"
    by code_simp
  have de: "deserialize ?rd depth_raw (msgtype depth_connection) =
              Inr (Image ''camera'' 1 3 (drop 2 depth_raw))"
    by code_simp
  have u: "uint16_of_bytes (drop 2 depth_raw) = [10, 20, 30]" by code_simp
  have l: "length (drop 2 depth_raw) mod 2 = 0" "length (drop 2 depth_raw) div 2 = 1 * 3"
    by code_simp+
  have ac: "applyColorMap example_colormap \<lparr>shape = [1, 3], elems = [0, 128, 255]\<rparr> =
              Inr \<lparr>shape = [1, 3, 3], elems = [0, 0, 255, 128, 0, 127, 255, 0, 0]\<rparr>"
    by code_simp
  have "depth_colored fma example_colormap ?rd (depth_connection, 0, depth_raw) =
          Inr \<lparr>shape = [1, 3, 3], elems = [0, 0, 255, 128, 0, 127, 255, 0, 0]\<rparr>"
    by (simp only: depth_colored_Image[OF de] l u normalize_minmax_8u_example ac
        not_not not_True_eq_False refl if_False)
  then show ?thesis
    by (simp only: extract_depth_frames_def ms depth_loop.simps sum.case append_Nil)
qed

lemma depth_colored_valid:
  assumes "deserialize rd raw (msgtype c) = Inr (Image fid h w d)"
    and "length d = h * w * 2" and "d \<noteq> []"
  shows "\<exists>f. depth_colored fma turbo rd (c, t, raw) = Inr f"
proof -
  let ?src = "\<lparr>shape = [h, w], elems = uint16_of_bytes d\<rparr> :: uint16 ndarray"
  from assms(3) have "0 < length d" by simp
  with assms(2) have "0 < length d div 2" by presburger
  then have "0 < length (elems (normalize_minmax_8u fma ?src))"
    by (simp only: normalize_minmax_8u_length ndarray.simps uint16_of_bytes_length)
  then have e: "elems (normalize_minmax_8u fma ?src) \<noteq> []" by simp
  have sh: "shape (normalize_minmax_8u fma ?src) = [h, w]"
    by (simp only: normalize_minmax_8u_shape ndarray.simps)
  from assms(2) have l: "length d mod 2 = 0" "length d div 2 = h * w" by simp_all
  have "depth_colored fma turbo rd (c, t, raw) = applyColorMap turbo (normalize_minmax_8u fma ?src)"
    by (simp only: depth_colored_Image[OF assms(1)] l not_not refl not_True_eq_False if_False)
  with e sh show ?thesis by (simp add: applyColorMap_def)
qed

text \<open>
  C2. For a depth message whose buffer holds \<open>h * w\<close> 16-bit samples that are not all
  equal, the normalised 8-bit frame exists, has the message's shape, and holds 0 wherever
  the message holds its minimum sample and 255 wherever it holds its maximum sample.
  Each frame the depth extractor returns is the colour-mapped normalisation of the one
  message at its position: no other message enters it.
\<close>

theorem depth_normalized_min_0_max_255:
  "(\<forall>fid h w d.
      deserialize rd raw (msgtype c) = Inr (Image fid h w d) \<and> length d = h * w * 2 \<and>
      \<not> all_equal (uint16_of_bytes d) \<longrightarrow>
      (\<exists>n. depth_normalized fma rd (c, t, raw) = Inr n \<and> shape n = [h, w] \<and>
           length (elems n) = h * w \<and>
           (\<forall>p < h * w.
              (uint16_of_bytes d ! p = Min (set (uint16_of_bytes d)) \<longrightarrow> elems n ! p = 0) \<and>
              (uint16_of_bytes d ! p = Max (set (uint16_of_bytes d)) \<longrightarrow> elems n ! p = 255)))) \<and>
   (\<forall>fs. extract_depth_frames fma turbo rd = Inr fs \<longrightarrow>
      length fs = length (messages rd (depth_connections rd)) \<and>
      (\<forall>i < length fs. \<exists>n.
         depth_normalized fma rd (messages rd (depth_connections rd) ! i) = Inr n \<and>
         applyColorMap turbo n = Inr (fs ! i)))"
proof (intro conjI allI impI)
  fix fid h w d
  assume a: "deserialize rd raw (msgtype c) = Inr (Image fid h w d) \<and> length d = h * w * 2 \<and>
      \<not> all_equal (uint16_of_bytes d)"
  let ?ss = "uint16_of_bytes d"
  let ?src = "\<lparr>shape = [h, w], elems = ?ss\<rparr> :: uint16 ndarray"
  let ?n = "normalize_minmax_8u fma ?src"
  from a have de: "deserialize rd raw (msgtype c) = Inr (Image fid h w d)"
    and ld: "length d = h * w * 2" and ne: "\<not> all_equal ?ss" by simp_all
  from depth_normalized_Image[OF de, of fma t] ld
  have n: "depth_normalized fma rd (c, t, raw) = Inr ?n" by simp
  have len: "length ?ss = h * w" by (simp add: uint16_of_bytes_length ld)
  from ne obtain x y where "x \<in> set ?ss" "y \<in> set ?ss" "x \<noteq> y"
    by (auto simp: all_equal_def)
  then have ne': "\<exists>i < length (elems ?src). \<exists>j < length (elems ?src). elems ?src ! i \<noteq> elems ?src ! j"
    by (auto simp: in_set_conv_nth)
  have "\<forall>p < h * w.
          (?ss ! p = Min (set ?ss) \<longrightarrow> elems ?n ! p = 0) \<and>
          (?ss ! p = Max (set ?ss) \<longrightarrow> elems ?n ! p = 255)"
  proof (intro allI impI)
    fix p assume "p < h * w"
    then have "p < length (elems ?src)" by (simp add: len)
    from normalize_minmax_8u_extremes[OF ne' this, of fma]
    show "(?ss ! p = Min (set ?ss) \<longrightarrow> elems ?n ! p = 0) \<and>
          (?ss ! p = Max (set ?ss) \<longrightarrow> elems ?n ! p = 255)" by simp
  qed
  with n len show "\<exists>n. depth_normalized fma rd (c, t, raw) = Inr n \<and> shape n = [h, w] \<and>
           length (elems n) = h * w \<and>
           (\<forall>p < h * w.
              (?ss ! p = Min (set ?ss) \<longrightarrow> elems n ! p = 0) \<and>
              (?ss ! p = Max (set ?ss) \<longrightarrow> elems n ! p = 255))"
    by (intro exI[of _ ?n]) (simp add: normalize_minmax_8u_shape normalize_minmax_8u_length)
next
  fix fs
  assume ex: "extract_depth_frames fma turbo rd = Inr fs"
  let ?xs = "messages rd (depth_connections rd)"
  from ex have "depth_loop fma turbo rd ?xs [] = Inr fs" by (simp add: extract_depth_frames_def)
  from depth_loop_Inr[OF this]
  have all2: "list_all2 (\<lambda>x g. depth_colored fma turbo rd x = Inr g) ?xs fs" by simp
  then show "length fs = length ?xs" by (simp add: list_all2_lengthD)
  fix i assume "i < length fs"
  with all2 have "depth_colored fma turbo rd (?xs ! i) = Inr (fs ! i)"
    by (simp add: list_all2_conv_all_nth)
  then show "\<exists>n. depth_normalized fma rd (?xs ! i) = Inr n \<and> applyColorMap turbo n = Inr (fs ! i)"
    by (auto simp: depth_colored_def bind_err_def split: sum.splits)
qed

theorem depth_normalized_min_0_max_255_witness:
  "\<not> all_equal (uint16_of_bytes (drop 2 depth_raw)) \<and>
   (\<exists>n. depth_normalized False recording_one_depth (depth_connection, 0, depth_raw) = Inr n \<and>
        elems n ! 0 = 0 \<and> elems n ! 2 = 255) \<and>
   (\<exists>fs n. extract_depth_frames False example_colormap recording_one_depth = Inr fs \<and>
        length fs = 1 \<and>
        depth_normalized False recording_one_depth (depth_connection, 0, depth_raw) = Inr n \<and>
        applyColorMap example_colormap n = Inr (fs ! 0))"
proof -
  let ?rd = recording_one_depth
  let ?d = "drop 2 depth_raw"
  note claim = depth_normalized_min_0_max_255
    [where rd = ?rd and raw = depth_raw and c = depth_connection and t = 0
       and turbo = example_colormap and fma = False]
  have de: "deserialize ?rd depth_raw (msgtype depth_connection) = Inr (Image ''camera'' 1 3 ?d)"
    by code_simp
  have ld: "length ?d = 1 * 3 * 2" by code_simp
  have ne: "\<not> all_equal (uint16_of_bytes ?d)" by code_simp
  have mn: "uint16_of_bytes ?d ! 0 = Min (set (uint16_of_bytes ?d))" by code_simp
  have mx: "uint16_of_bytes ?d ! 2 = Max (set (uint16_of_bytes ?d))" by code_simp
  from claim de ld ne obtain n where
    n: "depth_normalized False ?rd (depth_connection, 0, depth_raw) = Inr n" and
    ext: "\<forall>p < 1 * 3.
            (uint16_of_bytes ?d ! p = Min (set (uint16_of_bytes ?d)) \<longrightarrow> elems n ! p = 0) \<and>
            (uint16_of_bytes ?d ! p = Max (set (uint16_of_bytes ?d)) \<longrightarrow> elems n ! p = 255)"
    by blast
  from ext mn mx have v: "elems n ! 0 = 0" "elems n ! 2 = 255" by simp_all
  have ms: "messages ?rd (depth_connections ?rd) = [(depth_connection, 0, depth_raw)]"
    by code_simp
  have "extract_depth_frames False example_colormap ?rd =
          Inr [\<lparr>shape = [1, 3, 3], elems = [0, 0, 255, 128, 0, 127, 255, 0, 0]\<rparr>]"
    by (rule extract_depth_frames_example)
  then obtain fs where fs: "extract_depth_frames False example_colormap ?rd = Inr fs" ..
  with claim have len: "length fs = 1" by (simp add: ms)
  from claim fs len obtain n' where
    "depth_normalized False ?rd (messages ?rd (depth_connections ?rd) ! 0) = Inr n'"
    "applyColorMap example_colormap n' = Inr (fs ! 0)"
    by (metis zero_less_one)
  with n have "applyColorMap example_colormap n = Inr (fs ! 0)" by (simp add: ms)
  with ne n v fs len show ?thesis by blast
qed

subsection \<open>The video encoder\<close>

lemma popen_cmds_append: "popen_cmds (xs @ ys) = popen_cmds xs @ popen_cmds ys"
  by (induction xs rule: popen_cmds.induct) simp_all

lemma stdin_bytes_append: "stdin_bytes (xs @ ys) = stdin_bytes xs @ stdin_bytes ys"
  by (induction xs rule: stdin_bytes.induct) simp_all


lemma popen_cmds_writes: "popen_cmds (map (\<lambda>f. StdinWrite (g f)) fs) = []"
  by (induction fs) simp_all



text \<open>
  The write loop writes a prefix of the frames, in order: all of them when it returns, and
  those before the broken operation when it raises.
\<close>

lemma write_frames_prefix:
  "\<exists>m \<le> length fs.
     write_frames p fs k w =
       (if m = length fs then None else Some BrokenPipeError,
        w\<lparr>trace := trace w @ map (\<lambda>f. StdinWrite (tobytes f)) (take m fs)\<rparr>) \<and>
     (m < length fs \<longrightarrow> pipe_breaks p = Some (k + m)) \<and>
     (\<forall>j < m. pipe_breaks p \<noteq> Some (k + j))"
proof (induction fs arbitrary: k w)
  case Nil
  show ?case by simp
next
  case (Cons f fs)
  show ?case
  proof (cases "pipe_breaks p = Some k")
    case True
    then show ?thesis by (intro exI[of _ 0]) simp
  next
    case False
    from Cons.IH[of "Suc k" "emit (StdinWrite (tobytes f)) w"] obtain m where
      m: "m \<le> length fs"
      "write_frames p fs (Suc k) (emit (StdinWrite (tobytes f)) w) =
         (if m = length fs then None else Some BrokenPipeError,
          (emit (StdinWrite (tobytes f)) w)
            \<lparr>trace := trace (emit (StdinWrite (tobytes f)) w) @
                      map (\<lambda>f. StdinWrite (tobytes f)) (take m fs)\<rparr>)"
      "m < length fs \<longrightarrow> pipe_breaks p = Some (Suc k + m)"
      "\<forall>j < m. pipe_breaks p \<noteq> Some (Suc k + j)"
      by blast
    have "\<forall>j < Suc m. pipe_breaks p \<noteq> Some (k + j)"
    proof (intro allI impI)
      fix j assume "j < Suc m"
      then show "pipe_breaks p \<noteq> Some (k + j)"
        using False m(4) by (cases j) auto
    qed
    with m False show ?thesis
      by (intro exI[of _ "Suc m"]) (simp add: emit_def)
  qed
qed


text \<open>The world once the process is launched, and the encoder from there on.\<close>

lemma create_video_launched:
  assumes "frames \<noteq> []"
    and "ff (ffmpeg_cmd output_path fps width height ec) (file_exists output_path w)
           (concat (map tobytes frames)) = Some p"
    and "w2 = w\<lparr>trace := trace w @ [Popen (ffmpeg_cmd output_path fps width height ec)],
                 files := (case encoded p of
                             None \<Rightarrow> files w
                           | Some c \<Rightarrow> store_file output_path c (files w))\<rparr>"
  shows "create_video ff frames output_path fps width height ec w =
           (case write_frames p frames 0 w2 of
              (Some e, w3) \<Rightarrow> (Some e, w3)
            | (None, w3) \<Rightarrow>
                if pipe_breaks p = Some (length frames)
                then (Some BrokenPipeError, w3\<lparr>trace := trace w3 @ [StdinClose]\<rparr>)
                else (case stderr p of
                        None \<Rightarrow>
                          (Some UnicodeDecodeError,
                           w3\<lparr>trace := trace w3 @ [StdinClose, StderrRead]\<rparr>)
                      | Some d \<Rightarrow>
                          (None,
                           w3\<lparr>trace := trace w3 @
                                [StdinClose, StderrRead, Wait,
                                 Print (if returncode p \<noteq> 0
                                        then ''Error creating video: '' @ d
                                        else ''Video saved to '' @ output_path)]\<rparr>)))"
proof -
  have w2: "(case encoded p of
               None \<Rightarrow> emit (Popen (ffmpeg_cmd output_path fps width height ec)) w
             | Some c \<Rightarrow> (emit (Popen (ffmpeg_cmd output_path fps width height ec)) w)
                 \<lparr>files := store_file output_path c
                    (files (emit (Popen (ffmpeg_cmd output_path fps width height ec)) w))\<rparr>)
            = w2"
    by (simp add: assms(3) emit_def split: option.splits)
  obtain r w3 where wf: "write_frames p frames 0 w2 = (r, w3)"
    by (cases "write_frames p frames 0 w2") auto
  have "create_video ff frames output_path fps width height ec w =
          (case (r, w3) of
             (Some e, w3) \<Rightarrow> (Some e, w3)
           | (None, w3) \<Rightarrow>
               let w4 = emit StdinClose w3
               in if pipe_breaks p = Some (length frames)
                  then (Some BrokenPipeError, w4)
                  else
                    let w5 = emit StderrRead w4
                    in case stderr p of
                         None \<Rightarrow> (Some UnicodeDecodeError, w5)
                       | Some diagnostics \<Rightarrow>
                           let w6 = emit Wait w5
                           in if returncode p \<noteq> 0
                              then (None, emit (Print (''Error creating video: '' @ diagnostics)) w6)
                              else (None, emit (Print (''Video saved to '' @ output_path)) w6))"
    unfolding create_video_def Let_def
    by (simp only: assms(1,2) if_False option.case w2 wf)
  then show ?thesis
    by (cases r; cases "stderr p") (simp_all add: wf Let_def emit_def)
qed


text \<open>Whatever the encoder does, the launch is the only launch and the stream carries a prefix.\<close>

lemma create_video_any:
  assumes "frames \<noteq> []"
  shows "\<exists>m \<le> length frames. \<exists>rest.
           trace (snd (create_video ff frames output_path fps width height ec w)) =
             trace w @ [Popen (ffmpeg_cmd output_path fps width height ec)] @
             map (\<lambda>frame. StdinWrite (tobytes frame)) (take m frames) @ rest \<and>
           popen_cmds rest = [] \<and> stdin_bytes rest = []"
proof (cases "ff (ffmpeg_cmd output_path fps width height ec) (file_exists output_path w)
           (concat (map tobytes frames))")
  case None
  with assms show ?thesis
    by (intro exI[of _ 0] exI[of _ "[]"]) (simp add: create_video_def Let_def emit_def)
next
  case (Some p)
  define w2 where "w2 = w\<lparr>trace := trace w @ [Popen (ffmpeg_cmd output_path fps width height ec)],
                 files := (case encoded p of
                             None \<Rightarrow> files w
                           | Some c \<Rightarrow> store_file output_path c (files w))\<rparr>"
  note cv = create_video_launched[where ff = ff and frames = frames and output_path = output_path and
      fps = fps and width = width and height = height and ec = ec and w = w and p = p,
      OF assms Some w2_def]
  have tr2: "trace w2 = trace w @ [Popen (ffmpeg_cmd output_path fps width height ec)]"
    by (simp add: w2_def)
  from write_frames_prefix[of frames p 0 w2] obtain m where
    m: "m \<le> length frames"
    "write_frames p frames 0 w2 =
       (if m = length frames then None else Some BrokenPipeError,
        w2\<lparr>trace := trace w2 @ map (\<lambda>f. StdinWrite (tobytes f)) (take m frames)\<rparr>)"
    by blast
  show ?thesis
  proof (cases "m = length frames")
    case False
    with m tr2 show ?thesis
      by (intro exI[of _ m] exI[of _ "[]"]) (simp add: cv)
  next
    case True
    show ?thesis
    proof (cases "pipe_breaks p = Some (length frames)")
      case brk: True
      with m tr2 True show ?thesis
        by (intro exI[of _ m] exI[of _ "[StdinClose]"]) (simp add: cv)
    next
      case nb: False
      show ?thesis
      proof (cases "stderr p")
        case None
        with m tr2 True nb show ?thesis
          by (intro exI[of _ m] exI[of _ "[StdinClose, StderrRead]"]) (simp add: cv)
      next
        case (Some d)
        with m tr2 True nb show ?thesis
          by (intro exI[of _ m] exI[of _ "[StdinClose, StderrRead, Wait,
                  Print (if returncode p \<noteq> 0
                         then ''Error creating video: '' @ d
                         else ''Video saved to '' @ output_path)]"])
            (simp add: cv)
      qed
    qed
  qed
qed

lemma create_video_popen:
  assumes "frames \<noteq> []"
  shows "popen_cmds (trace (snd (create_video ff frames output_path fps width height ec w))) =
           popen_cmds (trace w) @ [ffmpeg_cmd output_path fps width height ec]"
proof -
  from create_video_any[OF assms, of ff output_path fps width height ec w]
  obtain m rest where
    "trace (snd (create_video ff frames output_path fps width height ec w)) =
       trace w @ [Popen (ffmpeg_cmd output_path fps width height ec)] @
       map (\<lambda>frame. StdinWrite (tobytes frame)) (take m frames) @ rest"
    "popen_cmds rest = []" by blast
  then show ?thesis by (simp add: popen_cmds_append popen_cmds_writes)
qed

lemma digit_mem: "k < 10 \<Longrightarrow> ''0123456789'' ! k \<in> set ''0123456789''"
  by (rule nth_mem) simp

lemma snoc_subset: "set xs \<subseteq> S \<Longrightarrow> d \<in> S \<Longrightarrow> set (xs @ [d]) \<subseteq> S"
  by simp

lemma single_subset: "d \<in> S \<Longrightarrow> set [d] \<subseteq> S"
  by simp

lemma str_nat_digits: "set (str_nat n) \<subseteq> set ''0123456789''"
proof (induction n rule: str_nat.induct)
  case (1 n)
  show ?case
  proof (cases "n < 10")
    case True
    have eq: "str_nat n = [''0123456789'' ! n]"
      by (subst str_nat.simps) (simp only: True if_True)
    show ?thesis unfolding eq by (rule single_subset[OF digit_mem[OF True]])
  next
    case False
    have eq: "str_nat n = str_nat (n div 10) @ [''0123456789'' ! (n mod 10)]"
      by (subst str_nat.simps) (simp only: False if_False)
    have "n mod 10 < 10" by simp
    from snoc_subset[OF 1[OF False] digit_mem[OF this]] show ?thesis
      unfolding eq .
  qed
qed


lemma dash_not_digit: "CHR ''-'' \<notin> set ''0123456789''"
  by simp

lemma str_nat_not_bitrate_flag: "str_nat n \<noteq> ''-b:v''"
proof
  assume "str_nat n = ''-b:v''"
  then have "CHR ''-'' \<in> set (str_nat n)" by simp
  with str_nat_digits[of n] have "CHR ''-'' \<in> set ''0123456789''" by (rule_tac subsetD)
  with dash_not_digit show False by (rule_tac notE)
qed

lemma video_size_not_bitrate_flag: "str_nat w @ ''x'' @ str_nat h \<noteq> ''-b:v''"
proof
  assume "str_nat w @ ''x'' @ str_nat h = ''-b:v''"
  then have "set (str_nat w @ ''x'' @ str_nat h) = set ''-b:v''" by (rule arg_cong)
  moreover have "CHR ''x'' \<in> set (str_nat w @ ''x'' @ str_nat h)" by simp
  ultimately have "CHR ''x'' \<in> set ''-b:v''" by (rule_tac subst)
  then show False by simp
qed

lemma ffmpeg_cmd_uncompressed:
  "ffmpeg_cmd output_path fps width height False =
     [''ffmpeg'', ''-y'', ''-f'', ''rawvideo'', ''-pixel_format'', ''bgr24'',
      ''-video_size'', str_nat width @ ''x'' @ str_nat height,
      ''-framerate'', str_nat fps, ''-i'', ''pipe:'',
      ''-c:v'', ''mpeg4'', ''-crf'', ''0'', ''-preset'', ''medium'', output_path]"
  by (simp add: ffmpeg_cmd_def)

lemma ffmpeg_cmd_compressed:
  "ffmpeg_cmd output_path fps width height True =
     [''ffmpeg'', ''-y'', ''-f'', ''rawvideo'', ''-pixel_format'', ''bgr24'',
      ''-video_size'', str_nat width @ ''x'' @ str_nat height,
      ''-framerate'', str_nat fps, ''-i'', ''pipe:'',
      ''-c:v'', ''libx264'', ''-crf'', ''23'', ''-preset'', ''medium'',
      ''-b:v'', BITRATE, output_path]"
  by (simp add: ffmpeg_cmd_def)




text \<open>
  C4. On the empty sequence the encoder prints that there are no frames to write and
  does nothing else: no process is launched, nothing is written to an input stream, and
  the files and directories are as before. It returns without an exception.
\<close>

theorem create_video_empty_is_noop:
  "create_video ff [] output_path fps width height ec w =
     (None, w\<lparr>trace := trace w @ [Print (''No frames to write for '' @ output_path)]\<rparr>) \<and>
   popen_cmds (trace (snd (create_video ff [] output_path fps width height ec w))) =
     popen_cmds (trace w) \<and>
   stdin_bytes (trace (snd (create_video ff [] output_path fps width height ec w))) =
     stdin_bytes (trace w) \<and>
   files (snd (create_video ff [] output_path fps width height ec w)) = files w \<and>
   dirs (snd (create_video ff [] output_path fps width height ec w)) = dirs w"
  by (simp add: create_video_def emit_def popen_cmds_append stdin_bytes_append)

text \<open>
  C6. On a non-empty sequence the one process launched has the argument list of
  \<open>ffmpeg_cmd\<close>, whatever the encoder then does. With the compression flag off, the list
  ends in \<open>-crf 0\<close>, the preset and the output path, and no argument before the output
  path is \<open>-b:v\<close>. With the flag on, the list holds \<open>-b:v\<close> followed by the configured
  \<open>BITRATE\<close>.
\<close>

theorem create_video_profile:
  assumes "frames \<noteq> []"
  shows "popen_cmds (trace (snd (create_video ff frames output_path fps width height ec w))) =
           popen_cmds (trace w) @ [ffmpeg_cmd output_path fps width height ec] \<and>
         (\<not> ec \<longrightarrow>
            ffmpeg_cmd output_path fps width height ec =
              [''ffmpeg'', ''-y'', ''-f'', ''rawvideo'', ''-pixel_format'', ''bgr24'',
               ''-video_size'', str_nat width @ ''x'' @ str_nat height,
               ''-framerate'', str_nat fps, ''-i'', ''pipe:'',
               ''-c:v'', ''mpeg4'', ''-crf'', ''0'', ''-preset'', ''medium'', output_path] \<and>
            ''-b:v'' \<notin> set (butlast (ffmpeg_cmd output_path fps width height ec))) \<and>
         (ec \<longrightarrow>
            ffmpeg_cmd output_path fps width height ec =
              [''ffmpeg'', ''-y'', ''-f'', ''rawvideo'', ''-pixel_format'', ''bgr24'',
               ''-video_size'', str_nat width @ ''x'' @ str_nat height,
               ''-framerate'', str_nat fps, ''-i'', ''pipe:'',
               ''-c:v'', ''libx264'', ''-crf'', ''23'', ''-preset'', ''medium'',
               ''-b:v'', BITRATE, output_path])"
proof (intro conjI impI)
  show "popen_cmds (trace (snd (create_video ff frames output_path fps width height ec w))) =
           popen_cmds (trace w) @ [ffmpeg_cmd output_path fps width height ec]"
    by (rule create_video_popen[OF assms])
next
  assume "\<not> ec"
  then show "ffmpeg_cmd output_path fps width height ec =
              [''ffmpeg'', ''-y'', ''-f'', ''rawvideo'', ''-pixel_format'', ''bgr24'',
               ''-video_size'', str_nat width @ ''x'' @ str_nat height,
               ''-framerate'', str_nat fps, ''-i'', ''pipe:'',
               ''-c:v'', ''mpeg4'', ''-crf'', ''0'', ''-preset'', ''medium'', output_path]"
    by (simp add: ffmpeg_cmd_uncompressed)
next
  assume "\<not> ec"
  then show "''-b:v'' \<notin> set (butlast (ffmpeg_cmd output_path fps width height ec))"
    using video_size_not_bitrate_flag[of width height] str_nat_not_bitrate_flag[of fps]
    by (simp add: ffmpeg_cmd_uncompressed eq_commute[of "''-b:v''"])
next
  assume ec
  then show "ffmpeg_cmd output_path fps width height ec =
              [''ffmpeg'', ''-y'', ''-f'', ''rawvideo'', ''-pixel_format'', ''bgr24'',
               ''-video_size'', str_nat width @ ''x'' @ str_nat height,
               ''-framerate'', str_nat fps, ''-i'', ''pipe:'',
               ''-c:v'', ''libx264'', ''-crf'', ''23'', ''-preset'', ''medium'',
               ''-b:v'', BITRATE, output_path]"
    by (simp add: ffmpeg_cmd_compressed)
qed

theorem create_video_profile_witness:
  "[frame_1x2] \<noteq> [] \<and>
   popen_cmds (trace (snd (create_video example_ffmpeg [frame_1x2] ''o.mp4'' 30 2 1 False
       initial_world))) =
     [[''ffmpeg'', ''-y'', ''-f'', ''rawvideo'', ''-pixel_format'', ''bgr24'',
       ''-video_size'', ''2x1'', ''-framerate'', ''30'', ''-i'', ''pipe:'',
       ''-c:v'', ''mpeg4'', ''-crf'', ''0'', ''-preset'', ''medium'', ''o.mp4'']] \<and>
   popen_cmds (trace (snd (create_video example_ffmpeg [frame_1x2] ''o.mp4'' 30 2 1 True
       initial_world))) =
     [[''ffmpeg'', ''-y'', ''-f'', ''rawvideo'', ''-pixel_format'', ''bgr24'',
       ''-video_size'', ''2x1'', ''-framerate'', ''30'', ''-i'', ''pipe:'',
       ''-c:v'', ''libx264'', ''-crf'', ''23'', ''-preset'', ''medium'',
       ''-b:v'', ''24000k'', ''o.mp4'']]"
proof -
  have ne: "[frame_1x2] \<noteq> []" by simp
  have s: "str_nat 2 = ''2''" "str_nat (Suc 0) = ''1''" "str_nat 30 = ''30''" by code_simp+
  note off = create_video_profile [OF ne, of example_ffmpeg "''o.mp4''" 30 2 1 False
      initial_world]
  note on = create_video_profile [OF ne, of example_ffmpeg "''o.mp4''" 30 2 1 True
      initial_world]
  from off have "popen_cmds (trace (snd (create_video example_ffmpeg [frame_1x2] ''o.mp4'' 30 2 1
       False initial_world))) =
     [[''ffmpeg'', ''-y'', ''-f'', ''rawvideo'', ''-pixel_format'', ''bgr24'',
       ''-video_size'', ''2x1'', ''-framerate'', ''30'', ''-i'', ''pipe:'',
       ''-c:v'', ''mpeg4'', ''-crf'', ''0'', ''-preset'', ''medium'', ''o.mp4'']]"
    by (simp add: initial_world_def s)
  moreover from on have "popen_cmds (trace (snd (create_video example_ffmpeg [frame_1x2] ''o.mp4''
       30 2 1 True initial_world))) =
     [[''ffmpeg'', ''-y'', ''-f'', ''rawvideo'', ''-pixel_format'', ''bgr24'',
       ''-video_size'', ''2x1'', ''-framerate'', ''30'', ''-i'', ''pipe:'',
       ''-c:v'', ''libx264'', ''-crf'', ''23'', ''-preset'', ''medium'',
       ''-b:v'', ''24000k'', ''o.mp4'']]"
    by (simp add: initial_world_def s BITRATE_def)
  ultimately show ?thesis using ne by blast
qed




lemma map_of_store_file: "map_of (store_file p c fs) p = Some c"
  by (induction fs) auto

lemma length_store_file:
  "p \<in> fst ` set fs \<Longrightarrow> length (store_file p c fs) = length fs"
  by (induction fs) force+

lemma write_frames_files: "files (snd (write_frames p fs k w)) = files w"
  by (induction fs arbitrary: k w) (simp_all add: emit_def)

lemma write_frames_same:
  "trace w = trace v \<Longrightarrow>
   fst (write_frames p fs k w) = fst (write_frames p fs k v) \<and>
   trace (snd (write_frames p fs k w)) = trace (snd (write_frames p fs k v))"
proof (induction fs arbitrary: k w v)
  case Nil
  then show ?case by simp
next
  case (Cons f fs)
  have "trace (emit (StdinWrite (tobytes f)) w) = trace (emit (StdinWrite (tobytes f)) v)"
    using Cons.prems by (simp add: emit_def)
  from Cons.IH[OF this, of "Suc k"] Cons.prems show ?case by simp
qed

lemma overwrite_flag_given: "''-y'' \<in> set (ffmpeg_cmd output_path fps width height ec)"
  by (cases ec) (simp_all add: ffmpeg_cmd_uncompressed ffmpeg_cmd_compressed)

text \<open>
  C10. The argument list always holds \<open>-y\<close>, whatever the compression flag, and it is the
  list of the one process launched. Hence, with an encoder that honours the overwrite flag,
  a file that already exists at the output path changes nothing in the run: the result and
  the trace are those of the run in the world without the file, so there is no failure and
  no question on its account. When the process stores its output, the world holds that
  output at the path in place of the old content, and no file more than before.
\<close>

theorem create_video_overwrites_existing_file:
  assumes "frames \<noteq> []"
    and "honours_overwrite_flag ff"
    and "file_exists output_path w"
  shows "''-y'' \<in> set (ffmpeg_cmd output_path fps width height ec) \<and>
         popen_cmds (trace (snd (create_video ff frames output_path fps width height ec w))) =
           popen_cmds (trace w) @ [ffmpeg_cmd output_path fps width height ec] \<and>
         fst (create_video ff frames output_path fps width height ec w) =
           fst (create_video ff frames output_path fps width height ec
                  (remove_file output_path w)) \<and>
         trace (snd (create_video ff frames output_path fps width height ec w)) =
           trace (snd (create_video ff frames output_path fps width height ec
                         (remove_file output_path w))) \<and>
         (\<forall>p c. ff (ffmpeg_cmd output_path fps width height ec) True
                   (concat (map tobytes frames)) = Some p \<and> encoded p = Some c \<longrightarrow>
            map_of (files (snd (create_video ff frames output_path fps width height ec w)))
              output_path = Some c \<and>
            length (files (snd (create_video ff frames output_path fps width height ec w))) =
              length (files w))"
proof -
  let ?cmd = "ffmpeg_cmd output_path fps width height ec"
  let ?bytes = "concat (map tobytes frames)"
  let ?v = "remove_file output_path w"
  have y: "''-y'' \<in> set ?cmd" by (rule overwrite_flag_given)
  have gone: "\<not> file_exists output_path ?v"
    by (auto simp: file_exists_def remove_file_def)
  have trv: "trace ?v = trace w" by (simp add: remove_file_def)
  from assms(2) y have same: "ff ?cmd True ?bytes = ff ?cmd False ?bytes"
    by (simp add: honours_overwrite_flag_def)
  have run_w: "ff ?cmd (file_exists output_path w) ?bytes = ff ?cmd True ?bytes"
    using assms(3) by simp
  have run_v: "ff ?cmd (file_exists output_path ?v) ?bytes = ff ?cmd True ?bytes"
    using gone same by simp
  have rest: "fst (create_video ff frames output_path fps width height ec w) =
           fst (create_video ff frames output_path fps width height ec ?v) \<and>
         trace (snd (create_video ff frames output_path fps width height ec w)) =
           trace (snd (create_video ff frames output_path fps width height ec ?v)) \<and>
         (\<forall>p c. ff ?cmd True ?bytes = Some p \<and> encoded p = Some c \<longrightarrow>
            map_of (files (snd (create_video ff frames output_path fps width height ec w)))
              output_path = Some c \<and>
            length (files (snd (create_video ff frames output_path fps width height ec w))) =
              length (files w))"
  proof (cases "ff ?cmd True ?bytes")
    case None
    with assms(1) run_w run_v trv show ?thesis
      by (simp add: create_video_def Let_def emit_def)
  next
    case (Some p)
    define w2 where "w2 = w\<lparr>trace := trace w @ [Popen ?cmd],
                 files := (case encoded p of
                             None \<Rightarrow> files w
                           | Some c \<Rightarrow> store_file output_path c (files w))\<rparr>"
    define v2 where "v2 = ?v\<lparr>trace := trace ?v @ [Popen ?cmd],
                 files := (case encoded p of
                             None \<Rightarrow> files ?v
                           | Some c \<Rightarrow> store_file output_path c (files ?v))\<rparr>"
    from Some run_w have rw: "ff ?cmd (file_exists output_path w) ?bytes = Some p" by simp
    from Some run_v have rv: "ff ?cmd (file_exists output_path ?v) ?bytes = Some p" by simp
    note cw = create_video_launched[where ff = ff and frames = frames and
      output_path = output_path and fps = fps and width = width and height = height and
      ec = ec and w = w and p = p, OF assms(1) rw w2_def]
    note cv = create_video_launched[where ff = ff and frames = frames and
      output_path = output_path and fps = fps and width = width and height = height and
      ec = ec and w = ?v and p = p, OF assms(1) rv v2_def]
    have "trace w2 = trace v2" by (simp add: w2_def v2_def trv)
    from write_frames_same[OF this, of p frames 0] write_frames_files[of p frames 0 w2]
    have eq: "fst (write_frames p frames 0 w2) = fst (write_frames p frames 0 v2)"
      "trace (snd (write_frames p frames 0 w2)) = trace (snd (write_frames p frames 0 v2))"
      "files (snd (write_frames p frames 0 w2)) = files w2"
      by simp_all
    obtain r w3 where w3: "write_frames p frames 0 w2 = (r, w3)"
      by (cases "write_frames p frames 0 w2") auto
    obtain r' v3 where v3: "write_frames p frames 0 v2 = (r', v3)"
      by (cases "write_frames p frames 0 v2") auto
    from eq w3 v3 have rr: "r' = r" "trace v3 = trace w3" "files w3 = files w2" by simp_all
    have fst_eq: "fst (create_video ff frames output_path fps width height ec w) =
           fst (create_video ff frames output_path fps width height ec ?v)"
      by (cases r; cases "stderr p") (simp_all add: cw cv w3 v3 rr)
    have tr_eq: "trace (snd (create_video ff frames output_path fps width height ec w)) =
           trace (snd (create_video ff frames output_path fps width height ec ?v))"
      by (cases r; cases "stderr p") (simp_all add: cw cv w3 v3 rr)
    have fl: "files (snd (create_video ff frames output_path fps width height ec w)) = files w2"
      by (cases r; cases "stderr p") (simp_all add: cw w3 rr)
    have "map_of (files w2) output_path = Some c \<and> length (files w2) = length (files w)"
      if "encoded p = Some c" for c
      using that assms(3)
      by (simp add: w2_def map_of_store_file length_store_file file_exists_def)
    with fst_eq tr_eq fl Some show ?thesis by simp
  qed
  from y create_video_popen[OF assms(1), of ff output_path fps width height ec w] rest
  show ?thesis by blast
qed


theorem create_video_overwrites_existing_file_witness:
  "[frame_1x2] \<noteq> [] \<and> honours_overwrite_flag example_ffmpeg \<and>
   file_exists ''o.mp4'' world_with_video \<and>
   fst (create_video example_ffmpeg [frame_1x2] ''o.mp4'' 30 2 1 False world_with_video) =
     None \<and>
   map_of (files (snd (create_video example_ffmpeg [frame_1x2] ''o.mp4'' 30 2 1 False
                         world_with_video))) ''o.mp4'' = Some [1, 2, 3, 4, 5, 6] \<and>
   length (files (snd (create_video example_ffmpeg [frame_1x2] ''o.mp4'' 30 2 1 False
                         world_with_video))) = 1"
proof -
  have ne: "[frame_1x2] \<noteq> []" by simp
  have hon: "honours_overwrite_flag example_ffmpeg"
    by (simp add: honours_overwrite_flag_def example_ffmpeg_def)
  have ex: "file_exists ''o.mp4'' world_with_video"
    by (simp add: file_exists_def world_with_video_def)
  note claim = create_video_overwrites_existing_file
    [where ff = example_ffmpeg and frames = "[frame_1x2]" and output_path = "''o.mp4''" and
      fps = 30 and width = 2 and height = 1 and ec = False and w = world_with_video,
      OF ne hon ex]
  have clean: "fst (create_video example_ffmpeg [frame_1x2] ''o.mp4'' 30 2 1 False
                      (remove_file ''o.mp4'' world_with_video)) = None"
    by code_simp
  have run: "example_ffmpeg (ffmpeg_cmd ''o.mp4'' 30 2 1 False) True
               (concat (map tobytes [frame_1x2])) =
             Some \<lparr>pipe_breaks = None, stderr = Some ''frame= 1'', returncode = 0,
                   encoded = Some [1, 2, 3, 4, 5, 6]\<rparr>"
    using claim by (simp add: example_ffmpeg_def tobytes_def frame_1x2_def)
  have len: "length (files world_with_video) = 1" by (simp add: world_with_video_def)
  from claim clean
  have a: "fst (create_video example_ffmpeg [frame_1x2] ''o.mp4'' 30 2 1 False
                  world_with_video) = None" by simp
  from claim run len
  have b: "map_of (files (snd (create_video example_ffmpeg [frame_1x2] ''o.mp4'' 30 2 1 False
                         world_with_video))) ''o.mp4'' = Some [1, 2, 3, 4, 5, 6] \<and>
           length (files (snd (create_video example_ffmpeg [frame_1x2] ''o.mp4'' 30 2 1 False
                         world_with_video))) = 1"
    by (metis process.select_convs(4))
  from ne hon ex a b show ?thesis by blast
qed

subsection \<open>Frame sizes and malformed buffers\<close>

text \<open>
  C7 as stated fails: neither extractor compares a frame with the first one. Two colour
  messages of different sizes give two frames of different sizes, and the resolution
  returned is that of the first.
\<close>

theorem frames_differ_in_size_counterexample:
  "extract_color_frames recording_two_sizes =
     Inr ([\<lparr>shape = [1, 1, 3], elems = [3, 2, 1]\<rparr>,
           \<lparr>shape = [1, 2, 3], elems = [3, 2, 1, 6, 5, 4]\<rparr>], 30, Some 1, Some 1)"
  by code_simp

text \<open>
  C7, as the code has it. Every frame of a returned sequence has the height and width its
  own message declares, so a frame has the size of the first frame exactly when its
  message declares the size of the first message. The colour extractor returns the
  height and width of the first frame, and \<open>None\<close> for both when there is no frame.
\<close>

theorem extracted_frames_have_message_size:
  "(\<forall>fs fps fw fh. extract_color_frames rd = Inr (fs, fps, fw, fh) \<longrightarrow>
      length fs = length (color_msgs rd) \<and>
      (\<forall>i < length fs.
         (\<exists>fid h w d. color_msgs rd ! i = Inr (Image fid h w d) \<and> shape (fs ! i) = [h, w, 3]) \<and>
         (shape (fs ! i) = shape (fs ! 0) \<longleftrightarrow>
            msg_size (color_msgs rd ! i) = msg_size (color_msgs rd ! 0))) \<and>
      (fs = [] \<longrightarrow> fw = None \<and> fh = None) \<and>
      (fs \<noteq> [] \<longrightarrow> fh = Some (shape (fs ! 0) ! 0) \<and> fw = Some (shape (fs ! 0) ! 1))) \<and>
   (\<forall>fs. extract_depth_frames fma turbo rd = Inr fs \<longrightarrow>
      length fs = length (depth_msgs rd) \<and>
      (\<forall>i < length fs.
         (\<exists>fid h w d. depth_msgs rd ! i = Inr (Image fid h w d) \<and> shape (fs ! i) = [h, w, 3]) \<and>
         (shape (fs ! i) = shape (fs ! 0) \<longleftrightarrow>
            msg_size (depth_msgs rd ! i) = msg_size (depth_msgs rd ! 0))))"
proof (intro conjI allI impI)
  fix fs fps fw fh
  assume ex: "extract_color_frames rd = Inr (fs, fps, fw, fh)"
  let ?xs = "messages rd (color_connections rd)"
  from ex have "color_loop rd ?xs ([], None, None) = Inr (fs, fw, fh)"
    by (auto simp: extract_color_frames_def split: sum.splits)
  from color_loop_Inr[OF this]
  have all2: "list_all2 (\<lambda>x g. color_frame rd x = Inr g) ?xs fs"
    and fw: "fw = (if fs \<noteq> [] then Some (shape (hd fs) ! 1) else None)"
    and fh: "fh = (if fs \<noteq> [] then Some (shape (hd fs) ! 0) else None)"
    by simp_all
  from all2 have len: "length ?xs = length fs" by (rule list_all2_lengthD)
  then show "length fs = length (color_msgs rd)" by (simp add: color_msgs_def)
  { assume "fs = []" with fw fh show "fw = None" "fh = None" by simp_all }
  { assume "fs \<noteq> []"
    with fw fh show "fh = Some (shape (fs ! 0) ! 0)" "fw = Some (shape (fs ! 0) ! 1)"
      by (simp_all add: hd_conv_nth) }
  have sz: "\<exists>fid h w d. color_msgs rd ! i = Inr (Image fid h w d) \<and> shape (fs ! i) = [h, w, 3]"
    if i: "i < length fs" for i
  proof -
    obtain c t raw where x: "?xs ! i = (c, t, raw)" by (cases "?xs ! i") auto
    from all2 i have "color_frame rd (?xs ! i) = Inr (fs ! i)"
      by (simp add: list_all2_conv_all_nth)
    from color_frame_Inr[OF this[unfolded x]] obtain fid h w d where
      "deserialize rd raw (msgtype c) = Inr (Image fid h w d)"
      "fs ! i = \<lparr>shape = [h, w, 3], elems = swap_rb d\<rparr>" by auto
    with i len x show ?thesis by (simp add: color_msgs_def)
  qed
  fix i assume i: "i < length fs"
  from sz[OF i] show "\<exists>fid h w d. color_msgs rd ! i = Inr (Image fid h w d) \<and>
      shape (fs ! i) = [h, w, 3]" .
  from i have "0 < length fs" by linarith
  from sz[OF i] sz[OF this]
  show "(shape (fs ! i) = shape (fs ! 0)) =
        (msg_size (color_msgs rd ! i) = msg_size (color_msgs rd ! 0))"
    by (auto simp: msg_size_def)
next
  fix fs
  assume ex: "extract_depth_frames fma turbo rd = Inr fs"
  let ?xs = "messages rd (depth_connections rd)"
  from ex have "depth_loop fma turbo rd ?xs [] = Inr fs" by (simp add: extract_depth_frames_def)
  from depth_loop_Inr[OF this]
  have all2: "list_all2 (\<lambda>x g. depth_colored fma turbo rd x = Inr g) ?xs fs" by simp
  then have len: "length ?xs = length fs" by (rule list_all2_lengthD)
  then show "length fs = length (depth_msgs rd)" by (simp add: depth_msgs_def)
  have sz: "\<exists>fid h w d. depth_msgs rd ! i = Inr (Image fid h w d) \<and> shape (fs ! i) = [h, w, 3]"
    if i: "i < length fs" for i
  proof -
    obtain c t raw where x: "?xs ! i = (c, t, raw)" by (cases "?xs ! i") auto
    from all2 i have "depth_colored fma turbo rd (?xs ! i) = Inr (fs ! i)"
      by (simp add: list_all2_conv_all_nth)
    from depth_colored_Inr[OF this[unfolded x]] obtain fid h w d where
      "deserialize rd raw (msgtype c) = Inr (Image fid h w d)"
      "shape (fs ! i) = [h, w, 3]" by auto
    with i len x show ?thesis by (simp add: depth_msgs_def)
  qed
  fix i assume i: "i < length fs"
  from sz[OF i] show "\<exists>fid h w d. depth_msgs rd ! i = Inr (Image fid h w d) \<and>
      shape (fs ! i) = [h, w, 3]" .
  from i have "0 < length fs" by linarith
  from sz[OF i] sz[OF this]
  show "(shape (fs ! i) = shape (fs ! 0)) =
        (msg_size (depth_msgs rd ! i) = msg_size (depth_msgs rd ! 0))"
    by (auto simp: msg_size_def)
qed


theorem extracted_frames_have_message_size_witness:
  "(\<exists>fs fw fh. extract_color_frames recording_two_sizes = Inr (fs, 30, fw, fh) \<and>
      length fs = 2 \<and> shape (fs ! 0) = [1, 1, 3] \<and> shape (fs ! 1) = [1, 2, 3] \<and>
      fh = Some (shape (fs ! 0) ! 0) \<and> fw = Some (shape (fs ! 0) ! 1)) \<and>
   (\<exists>fs. extract_depth_frames False example_colormap recording_one_depth = Inr fs \<and>
      length fs = 1 \<and> shape (fs ! 0) = [1, 3, 3])"
proof -
  let ?rc = recording_two_sizes and ?rd = recording_one_depth
  have cm: "color_msgs ?rc = [Inr (Image ''camera'' 1 1 [1, 2, 3]),
                              Inr (Image ''camera'' 1 2 [1, 2, 3, 4, 5, 6])]"
    by code_simp
  have dm: "depth_msgs ?rd = [Inr (Image ''camera'' 1 3 [10, 0, 20, 0, 30, 0])]"
    by code_simp
  have "extract_color_frames ?rc =
     Inr ([\<lparr>shape = [1, 1, 3], elems = [3, 2, 1]\<rparr>,
           \<lparr>shape = [1, 2, 3], elems = [3, 2, 1, 6, 5, 4]\<rparr>], 30, Some 1, Some 1)"
    by code_simp
  then obtain fs fw fh where c: "extract_color_frames ?rc = Inr (fs, 30, fw, fh)" by blast
  have "extract_depth_frames False example_colormap ?rd =
          Inr [\<lparr>shape = [1, 3, 3], elems = [0, 0, 255, 128, 0, 127, 255, 0, 0]\<rparr>]"
    by (rule extract_depth_frames_example)
  then obtain gs where d: "extract_depth_frames False example_colormap ?rd = Inr gs" ..
  note color = extracted_frames_have_message_size [where rd = ?rc and turbo = example_colormap and fma = False]
  note depth = extracted_frames_have_message_size [where rd = ?rd and turbo = example_colormap and fma = False]
  from color c have len: "length fs = 2" by (simp add: cm)
  then have ne: "fs \<noteq> []" by auto
  from color c ne have res: "fh = Some (shape (fs ! 0) ! 0)" "fw = Some (shape (fs ! 0) ! 1)"
    by blast+
  from len have "0 < length fs" "1 < length fs" by simp_all
  with color c obtain fid0 h0 w0 d0 fid1 h1 w1 d1 where
    "color_msgs ?rc ! 0 = Inr (Image fid0 h0 w0 d0)" "shape (fs ! 0) = [h0, w0, 3]"
    "color_msgs ?rc ! 1 = Inr (Image fid1 h1 w1 d1)" "shape (fs ! 1) = [h1, w1, 3]"
    by metis
  then have sh: "shape (fs ! 0) = [1, 1, 3]" "shape (fs ! 1) = [1, 2, 3]"
    by (simp_all add: cm)
  from depth d have dlen: "length gs = 1" by (simp add: dm)
  then have "0 < length gs" by simp
  with depth d obtain fid h w dd where
    "depth_msgs ?rd ! 0 = Inr (Image fid h w dd)" "shape (gs ! 0) = [h, w, 3]"
    by metis
  then have dsh: "shape (gs ! 0) = [1, 3, 3]" by (simp add: dm)
  from c len sh res d dlen dsh show ?thesis by blast
qed

lemma color_loop_fails:
  "\<forall>y \<in> set pre. \<exists>f. color_frame rd y = Inr f \<Longrightarrow> color_frame rd x = Inl e \<Longrightarrow>
   color_loop rd (pre @ x # post) (fs, fw, fh) = Inl e"
proof (induction pre arbitrary: fs fw fh)
  case Nil
  then show ?case by simp
next
  case (Cons y pre)
  then obtain g where g: "color_frame rd y = Inr g" by auto
  obtain c t raw where y: "y = (c, t, raw)" by (cases y) auto
  from color_frame_Inr[OF g[unfolded y]] obtain h w where sh: "shape g = [h, w, 3]"
    by auto
  from Cons.prems have rest: "\<forall>y \<in> set pre. \<exists>f. color_frame rd y = Inr f" by simp
  show ?case
    using Cons.IH[OF rest Cons.prems(2)] g sh by (cases fw) simp_all
qed

lemma depth_loop_fails:
  "\<forall>y \<in> set pre. \<exists>f. depth_colored fma turbo rd y = Inr f \<Longrightarrow>
   depth_colored fma turbo rd x = Inl e \<Longrightarrow>
   depth_loop fma turbo rd (pre @ x # post) acc = Inl e"
proof (induction pre arbitrary: acc)
  case Nil
  then show ?case by simp
next
  case (Cons y pre)
  then obtain g where g: "depth_colored fma turbo rd y = Inr g" by auto
  from Cons.prems have rest: "\<forall>y \<in> set pre. \<exists>f. depth_colored fma turbo rd y = Inr f" by simp
  show ?case using Cons.IH[OF rest Cons.prems(2)] g by simp
qed

lemma applyColorMap_not_malformed:
  "applyColorMap turbo a = Inl e \<Longrightarrow> \<not> MalformedFrameError e"
  by (auto simp: applyColorMap_def split: if_splits list.splits)

text \<open>
  C8. Take an image message of height \<open>h\<close>, width \<open>w\<close> and buffer \<open>d\<close>. In the colour loop,
  a buffer of other than \<open>h * w * 3\<close> bytes makes \<open>reshape\<close> raise its
  \<^verbatim>\<open>ValueError\<close>, and a buffer of that length raises no malformed-frame error. In the
  depth loop, a buffer of other than \<open>h * w * 2\<close> bytes raises a malformed-frame error
  (from \<open>reshape\<close>, or from \<^verbatim>\<open>np.frombuffer\<close> when the length is odd), and a buffer of
  that length raises none. When the messages before it gave frames, that error is the
  result of the whole extractor: no frame sequence is returned.
\<close>

theorem malformed_buffer_is_rejected:
  assumes "deserialize rd raw (msgtype c) = Inr (Image fid h w d)"
  shows "(length d \<noteq> h * w * 3 \<longrightarrow> color_frame rd (c, t, raw) = Inl ValueError_reshape) \<and>
         (length d = h * w * 3 \<longrightarrow>
            (\<forall>e. color_frame rd (c, t, raw) = Inl e \<longrightarrow> \<not> MalformedFrameError e)) \<and>
         (length d \<noteq> h * w * 2 \<longrightarrow>
            (\<exists>e. depth_colored fma turbo rd (c, t, raw) = Inl e \<and> MalformedFrameError e)) \<and>
         (length d = h * w * 2 \<longrightarrow>
            (\<forall>e. depth_colored fma turbo rd (c, t, raw) = Inl e \<longrightarrow> \<not> MalformedFrameError e)) \<and>
         (length d \<noteq> h * w * 3 \<and>
          messages rd (color_connections rd) = pre @ (c, t, raw) # post \<and>
          (\<forall>y \<in> set pre. \<exists>f. color_frame rd y = Inr f) \<longrightarrow>
            extract_color_frames rd = Inl ValueError_reshape) \<and>
         (length d \<noteq> h * w * 2 \<and>
          messages rd (depth_connections rd) = pre @ (c, t, raw) # post \<and>
          (\<forall>y \<in> set pre. \<exists>f. depth_colored fma turbo rd y = Inr f) \<longrightarrow>
            (\<exists>e. extract_depth_frames fma turbo rd = Inl e \<and> MalformedFrameError e))"
proof -
  note cf = color_frame_Image[OF assms, of t]
  note df = depth_colored_Image[OF assms, of fma turbo t]
  have c1: "length d \<noteq> h * w * 3 \<Longrightarrow> color_frame rd (c, t, raw) = Inl ValueError_reshape"
    using cf by simp
  have c2: "length d = h * w * 3 \<Longrightarrow> color_frame rd (c, t, raw) = Inl e \<Longrightarrow>
            \<not> MalformedFrameError e" for e
    using cf by (auto split: if_splits)
  have d1: "\<exists>e. depth_colored fma turbo rd (c, t, raw) = Inl e \<and> MalformedFrameError e"
    if "length d \<noteq> h * w * 2"
  proof (cases "length d mod 2 = 0")
    case True
    with that have "length d div 2 \<noteq> h * w" by presburger
    with True df show ?thesis by simp
  next
    case False
    with df show ?thesis by simp
  qed
  have d2: "\<not> MalformedFrameError e"
    if "length d = h * w * 2" "depth_colored fma turbo rd (c, t, raw) = Inl e" for e
  proof -
    from that(1) have "length d mod 2 = 0" "length d div 2 = h * w" by simp_all
    with df that(2) have "applyColorMap turbo
        (normalize_minmax_8u fma \<lparr>shape = [h, w], elems = uint16_of_bytes d\<rparr>) = Inl e"
      by simp
    then show ?thesis by (rule applyColorMap_not_malformed)
  qed
  have e1: "extract_color_frames rd = Inl ValueError_reshape"
    if "length d \<noteq> h * w * 3" "messages rd (color_connections rd) = pre @ (c, t, raw) # post"
       "\<forall>y \<in> set pre. \<exists>f. color_frame rd y = Inr f"
    using color_loop_fails[OF that(3) c1[OF that(1)], of post "[]" None None] that(2)
    by (simp add: extract_color_frames_def)
  have e2: "\<exists>e. extract_depth_frames fma turbo rd = Inl e \<and> MalformedFrameError e"
    if "length d \<noteq> h * w * 2" "messages rd (depth_connections rd) = pre @ (c, t, raw) # post"
       "\<forall>y \<in> set pre. \<exists>f. depth_colored fma turbo rd y = Inr f"
  proof -
    from d1[OF that(1)] obtain e where e: "depth_colored fma turbo rd (c, t, raw) = Inl e"
      "MalformedFrameError e" by blast
    from depth_loop_fails[OF that(3) e(1), of post "[]"] that(2) e(2)
    show ?thesis by (simp add: extract_depth_frames_def)
  qed
  from c1 c2 d1 d2 e1 e2 show ?thesis by blast
qed


theorem malformed_buffer_is_rejected_witness:
  "length [1, 2, 3, 4 :: uint8] \<noteq> 1 * 2 * 3 \<and>
   color_frame recording_malformed (color_connection, 1, [1, 2, 1, 2, 3, 4]) =
     Inl ValueError_reshape \<and>
   extract_color_frames recording_malformed = Inl ValueError_reshape \<and>
   length [7 :: uint8] \<noteq> 1 * 1 * 2 \<and>
   (\<exists>e. extract_depth_frames False example_colormap recording_malformed = Inl e \<and>
        MalformedFrameError e) \<and>
   length [1, 2, 3 :: uint8] = 1 * 1 * 3 \<and>
   \<not> (\<exists>e. color_frame recording_malformed (color_connection, 0, [1, 1, 1, 2, 3]) = Inl e \<and>
           MalformedFrameError e)"
proof -
  let ?rd = recording_malformed
  have de1: "deserialize ?rd [1, 2, 1, 2, 3, 4] (msgtype color_connection) =
               Inr (Image ''camera'' 1 2 [1, 2, 3, 4])" by code_simp
  have de0: "deserialize ?rd [1, 1, 1, 2, 3] (msgtype color_connection) =
               Inr (Image ''camera'' 1 1 [1, 2, 3])" by code_simp
  have de3: "deserialize ?rd [1, 1, 7] (msgtype depth_connection) =
               Inr (Image ''camera'' 1 1 [7])" by code_simp
  have cms: "messages ?rd (color_connections ?rd) =
               [(color_connection, 0, [1, 1, 1, 2, 3])] @
               (color_connection, 1, [1, 2, 1, 2, 3, 4]) # []" by code_simp
  have dms: "messages ?rd (depth_connections ?rd) =
               [(depth_connection, 2, [1, 2, 7, 0, 9, 0])] @
               (depth_connection, 3, [1, 1, 7]) # []" by code_simp
  have cpre: "\<forall>y \<in> set [(color_connection, 0, [1, 1, 1, 2, 3])].
                \<exists>f. color_frame ?rd y = Inr f"
  proof -
    have "color_frame ?rd (color_connection, 0, [1, 1, 1, 2, 3]) =
            Inr \<lparr>shape = [1, 1, 3], elems = [3, 2, 1]\<rparr>" by code_simp
    then show ?thesis by simp
  qed
  have dpre: "\<forall>y \<in> set [(depth_connection, 2, [1, 2, 7, 0, 9, 0])].
                \<exists>f. depth_colored False example_colormap ?rd y = Inr f"
  proof -
    have "deserialize ?rd [1, 2, 7, 0, 9, 0] (msgtype depth_connection) =
            Inr (Image ''camera'' 1 2 [7, 0, 9, 0])" by code_simp
    from depth_colored_valid[OF this, of False example_colormap 2]
    show ?thesis by simp
  qed
  have l1: "length [1, 2, 3, 4 :: uint8] \<noteq> 1 * 2 * 3" by simp
  have l3: "length [7 :: uint8] \<noteq> 1 * 1 * 2" by simp
  have l0: "length [1, 2, 3 :: uint8] = 1 * 1 * 3" by simp
  note second_color = malformed_buffer_is_rejected [OF de1, where t = 1
      and fma = False and turbo = example_colormap
      and pre = "[(color_connection, 0, [1, 1, 1, 2, 3])]" and post = "[]"]
  note second_depth = malformed_buffer_is_rejected [OF de3, where t = 3
      and fma = False and turbo = example_colormap
      and pre = "[(depth_connection, 2, [1, 2, 7, 0, 9, 0])]" and post = "[]"]
  note first_color = malformed_buffer_is_rejected [OF de0, where t = 0
      and fma = False and turbo = example_colormap and pre = "[]" and post = "[]"]
  from second_color l1 have a: "color_frame ?rd (color_connection, 1, [1, 2, 1, 2, 3, 4]) =
     Inl ValueError_reshape" by blast
  from second_color l1 cms cpre have b: "extract_color_frames ?rd = Inl ValueError_reshape"
    by blast
  from second_depth l3 dms dpre
  have c: "\<exists>e. extract_depth_frames False example_colormap ?rd = Inl e \<and> MalformedFrameError e"
    by blast
  from first_color l0
  have d: "\<not> (\<exists>e. color_frame ?rd (color_connection, 0, [1, 1, 1, 2, 3]) = Inl e \<and>
           MalformedFrameError e)" by blast
  from l1 a b l3 c l0 d show ?thesis by blast
qed

subsection \<open>The driver\<close>

text \<open>
  When the colour loop iterates over no message, the driver launches no process and
  leaves the files as they were; if no library call raised, the last thing it does is
  print that the frame size could not be determined.
\<close>

lemma imu_loop_effects:
  "imu_loop rd xs w = (r, w') \<Longrightarrow>
   popen_cmds (trace w') = popen_cmds (trace w) \<and> stdin_bytes (trace w') = stdin_bytes (trace w) \<and>
   files w' = files w \<and> dirs w' = dirs w"
proof (induction xs arbitrary: w)
  case Nil
  then show ?case by simp
next
  case (Cons x xs)
  obtain c t raw where x: "x = (c, t, raw)" by (cases x) auto
  show ?case
  proof (cases "bind_err (deserialize rd raw (msgtype c)) msg_header_frame_id")
    case (Inl e)
    with Cons.prems x show ?thesis by simp
  next
    case (Inr fid)
    with Cons.prems x have "imu_loop rd xs (emit (Print fid) w) = (r, w')" by simp
    from Cons.IH[OF this] show ?thesis
      by (simp add: emit_def popen_cmds_append stdin_bytes_append)
  qed
qed

lemma main_without_color_messages:
  assumes "messages rd (color_connections rd) = []"
    and "main fma turbo ff rd w = (r, w')"
  shows "popen_cmds (trace w') = popen_cmds (trace w) \<and> files w' = files w \<and>
         (r = None \<longrightarrow> last (trace w') = Print ''Error: Could not determine frame size.'')"
proof (cases "mkdir_exist_ok OUTPUT_DIR w")
  case (Inl e)
  with assms(2) show ?thesis by (auto simp: main_def)
next
  case (Inr w1)
  then have w1: "popen_cmds (trace w1) = popen_cmds (trace w)" "files w1 = files w"
    by (auto simp: mkdir_exist_ok_def emit_def popen_cmds_append split: if_splits)
  obtain r2 w2 where imu: "extract_imu_data rd (emit (Print ''Extracting IMU data...'') w1) = (r2, w2)"
    by (cases "extract_imu_data rd (emit (Print ''Extracting IMU data...'') w1)") auto
  from imu_loop_effects[OF imu[unfolded extract_imu_data_def]] w1
  have w2: "popen_cmds (trace w2) = popen_cmds (trace w)" "files w2 = files w"
    by (simp_all add: emit_def popen_cmds_append)
  have col: "extract_color_frames rd = Inr ([], 30, None, None)"
    using assms(1) by (simp add: extract_color_frames_def)
  show ?thesis
  proof (cases r2)
    case (Some e)
    with assms(2) Inr imu w2 show ?thesis by (auto simp: main_def)
  next
    case None
    show ?thesis
    proof (cases "extract_depth_frames fma turbo rd")
      case (Inl e)
      with assms(2) \<open>mkdir_exist_ok OUTPUT_DIR w = Inr w1\<close> imu None col w2 show ?thesis
        by (auto simp: main_def Let_def emit_def popen_cmds_append)
    next
      case (Inr depth_frames)
      with assms(2) \<open>mkdir_exist_ok OUTPUT_DIR w = Inr w1\<close> imu None col w2 show ?thesis
        by (auto simp: main_def Let_def emit_def popen_cmds_append)
    qed
  qed
qed

text \<open>
  C5. The colour loop iterates over no message when the colour topic is registered and
  empty. When the topic is absent from the recording, \<open>color_connections\<close> is the empty
  list, and \<^verbatim>\<open>reader.messages\<close> with an empty list does not filter: the loop iterates
  over every message of the recording. In the recording below the colour images are under
  another topic name and the depth topic has no message. No message is on the colour
  topic, and the driver still takes a resolution from the other topic's image, launches
  the encoder and has the colour video written.
\<close>

theorem main_encodes_without_color_topic:
  "messages_on_topic COLOR_TOPIC recording_renamed_color = [] \<and>
   main False example_colormap example_ffmpeg recording_renamed_color initial_world =
     (None,
      \<lparr>trace =
         [Mkdir ''output'',
          Print ''Extracting IMU data...'',
          Print ''camera'',
          Print ''Extracting color frames...'',
          Print ''Extracting depth frames...'',
          Popen [''ffmpeg'', ''-y'', ''-f'', ''rawvideo'', ''-pixel_format'', ''bgr24'',
                 ''-video_size'', ''1x1'', ''-framerate'', ''30'', ''-i'', ''pipe:'',
                 ''-c:v'', ''mpeg4'', ''-crf'', ''0'', ''-preset'', ''medium'',
                 ''output/color_video.mp4''],
          StdinWrite [30, 20, 10],
          StdinClose, StderrRead, Wait,
          Print ''Video saved to output/color_video.mp4''],
       files = [(''output/color_video.mp4'', [30, 20, 10])],
       dirs = [''output'']\<rparr>)"
  by code_simp

end
